theory Spec2Isabelle
  imports Complex_Main "HOL-Library.AList" "HOL-Library.Multiset"
begin

section \<open>Strings\<close>

text \<open>
  Strings are byte lists. \<open>String.prototype.endsWith\<close>, and the removal of a suffix that
  \<open>path.basename(name, ext)\<close> performs on a name without directory part.
\<close>

definition endsWith :: "string \<Rightarrow> string \<Rightarrow> bool" where
  "endsWith s suf = (length suf \<le> length s \<and> drop (length s - length suf) s = suf)"

definition basename_ext :: "string \<Rightarrow> string \<Rightarrow> string" where
  "basename_ext name ext =
     (if ext \<noteq> [] \<and> endsWith name ext then take (length name - length ext) name else name)"

section \<open>The analyzer: data model\<close>

text \<open>
  \<open>JobSuitabilityResult\<close> is what \<open>JSON.parse\<close> returned, cast without any check
  (\<open>return result as JobSuitabilityResult\<close>). A property of the interface is therefore
  present at run time only if the service sent it: every field is optional in the model,
  \<open>None\<close> standing for an absent property (\<open>undefined\<close>). Scores are JavaScript
  numbers; the finite ones are compared by \<open>b - a\<close> exactly as rationals are.
\<close>

record JobSuitabilityResult =
  suitability_status :: "string option"
  match_score :: "rat option"
  key_strengths :: "string list option"
  key_gaps :: "string list option"
  reasoning :: "string option"

record AnalysisRecord =
  jobFile :: string
  jobId :: string
  linkedinUrl :: string
  analyzedAt :: string
  result :: JobSuitabilityResult

text \<open>
  \<open>AnalysisCache\<close> is a JavaScript object used as a dictionary. Its keys are file names
  ending in \<open>.txt\<close>, never array indices, so \<open>Object.values\<close> enumerates in insertion
  order and an assignment to an existing key keeps the key's position: an association
  list with update in place.
\<close>

type_synonym AnalysisCache = "(string \<times> AnalysisRecord) list"

definition cache_set :: "AnalysisCache \<Rightarrow> string \<Rightarrow> AnalysisRecord \<Rightarrow> AnalysisCache" where
  "cache_set c k v = AList.update k v c"

definition cache_get :: "AnalysisCache \<Rightarrow> string \<Rightarrow> AnalysisRecord option" where
  "cache_get c k = map_of c k"

definition Object_values :: "AnalysisCache \<Rightarrow> AnalysisRecord list" where
  "Object_values c = map snd c"

definition Object_keys :: "AnalysisCache \<Rightarrow> string list" where
  "Object_keys c = map fst c"

definition getLinkedInUrl :: "string \<Rightarrow> string \<times> string" where
  "getLinkedInUrl fileName =
     (let jid = basename_ext fileName ''.txt''
      in (jid, ''https://www.linkedin.com/jobs/collections/recommended/?currentJobId='' @ jid))"

text \<open>
  \<open>loadAnalysisCache\<close>: the results file is absent (\<open>None\<close>) or holds the list of
  records an earlier \<open>saveAnalysisCache\<close> wrote.
\<close>

definition loadAnalysisCache :: "AnalysisRecord list option \<Rightarrow> AnalysisCache" where
  "loadAnalysisCache file =
     (case file of
        None \<Rightarrow> []
      | Some records \<Rightarrow> fold (\<lambda>r c. cache_set c (jobFile r) r) records [])"

section \<open>Sorting and saving the cache\<close>

text \<open>
  The comparator \<open>(a, b) => b.result.match_score - a.result.match_score\<close>. A missing
  score makes the difference \<open>NaN\<close> (\<open>None\<close>), which \<open>Array.prototype.sort\<close> reads as
  \<open>+0\<close>. The sort is stable (ECMAScript 2019); on a consistent comparator a stable sort
  has one possible result, the one that insertion from the right computes. When a score
  is missing the comparator is not consistent and the order is the engine's own: the
  model is then used on one input only, three records with the scores 1, none and 2,
  which insertion from the right and the run detection of the engine both leave as they
  stand.
\<close>

definition score_compare :: "AnalysisRecord \<Rightarrow> AnalysisRecord \<Rightarrow> rat option" where
  "score_compare a b =
     (case (match_score (result b), match_score (result a)) of
        (Some x, Some y) \<Rightarrow> Some (x - y)
      | _ \<Rightarrow> None)"

definition SortCompare :: "('a \<Rightarrow> 'a \<Rightarrow> rat option) \<Rightarrow> 'a \<Rightarrow> 'a \<Rightarrow> rat" where
  "SortCompare comparefn x y = (case comparefn x y of None \<Rightarrow> 0 | Some v \<Rightarrow> v)"

fun insort_cmp :: "('a \<Rightarrow> 'a \<Rightarrow> rat option) \<Rightarrow> 'a \<Rightarrow> 'a list \<Rightarrow> 'a list" where
  "insort_cmp comparefn x [] = [x]"
| "insort_cmp comparefn x (y # ys) =
     (if SortCompare comparefn x y \<le> 0 then x # y # ys
      else y # insort_cmp comparefn x ys)"

definition array_sort :: "('a \<Rightarrow> 'a \<Rightarrow> rat option) \<Rightarrow> 'a list \<Rightarrow> 'a list" where
  "array_sort comparefn xs = foldr (insort_cmp comparefn) xs []"

definition saveAnalysisCache :: "AnalysisCache \<Rightarrow> AnalysisRecord list" where
  "saveAnalysisCache c = array_sort score_compare (Object_values c)"

text \<open>
  The files of the output directory (\<open>results.json\<close>, \<open>summary.txt\<close>,
  \<open>top-matches.txt\<close>; \<open>None\<close> is a file that does not exist), and the state of a
  run: the in-memory cache, those files, the counters, and the file names handed to
  \<open>analyzeJobSuitability\<close> so far, in call order.
\<close>

record disk =
  results_file :: "AnalysisRecord list option"
  summary_file :: "string option"
  top_matches_file :: "string option"

record analyzer_state =
  cache :: AnalysisCache
  files :: disk
  successCount :: nat
  errorCount :: nat
  submitted :: "string list"

definition write_results :: "AnalysisCache \<Rightarrow> analyzer_state \<Rightarrow> analyzer_state" where
  "write_results c s = s\<lparr>files := (files s)\<lparr>results_file := Some (saveAnalysisCache c)\<rparr>\<rparr>"

text \<open>An upsert, as the loop of \<open>run\<close> performs it: the assignment \<open>cache[fileName] = record\<close>
  followed by \<open>saveAnalysisCache(cache)\<close>, a synchronous write of the whole sorted list.\<close>

definition upsert :: "analyzer_state \<Rightarrow> string \<times> AnalysisRecord \<Rightarrow> analyzer_state" where
  "upsert s kv =
     (let c = cache_set (cache s) (fst kv) (snd kv)
      in write_results c (s\<lparr>cache := c\<rparr>))"

definition has_score :: "AnalysisRecord \<Rightarrow> bool" where
  "has_score r = (match_score (result r) \<noteq> None)"

definition score_ge :: "AnalysisRecord \<Rightarrow> AnalysisRecord \<Rightarrow> bool" where
  "score_ge a b =
     (case (match_score (result a), match_score (result b)) of
        (Some x, Some y) \<Rightarrow> y \<le> x
      | _ \<Rightarrow> False)"

section \<open>The classifier\<close>

text \<open>
  What one call of \<open>ai.models.generateContent\<close> followed by \<open>JSON.parse\<close> can do: the
  call rejects (\<open>ServiceFailure\<close>), the text is empty or not JSON so that \<open>JSON.parse\<close>
  throws (\<open>Unparseable\<close>), or the text parses to an object, returned as it is. The
  response schema asks the service for an object with a status and a score; the program
  itself checks nothing. A text that parses to something other than an object (a number,
  \<open>null\<close>) is not modelled.
\<close>

datatype response = ServiceFailure | Unparseable | Payload JobSuitabilityResult

datatype error = ServiceError | SyntaxError | TypeError

text \<open>
  What a run takes from outside the program: the service (a function of the call's
  position in the run and of the request text), the clock read for \<open>analyzedAt\<close> and
  for the two report headers, the prompt constant, and JavaScript's conversion of a
  number to text.
\<close>

record environment =
  generateContent :: "nat \<Rightarrow> string \<Rightarrow> response"
  item_time :: "nat \<Rightarrow> string"
  summary_time :: string
  top_matches_time :: string
  JOB_ANALYSIS_PROMPT :: string
  number_text :: "rat \<Rightarrow> string"

definition request_text :: "environment \<Rightarrow> string \<Rightarrow> string \<Rightarrow> string" where
  "request_text env jobPosting resume =
     JOB_ANALYSIS_PROMPT env @ [CHR 0x0A, CHR 0x0A] @ ''CANDIDATE RESUME:'' @ [CHR 0x0A]
       @ resume @ [CHR 0x0A, CHR 0x0A] @ ''---'' @ [CHR 0x0A, CHR 0x0A]
       @ ''JOB POSTING TO ANALYZE:'' @ [CHR 0x0A] @ jobPosting"

definition analyzeJobSuitability ::
  "environment \<Rightarrow> nat \<Rightarrow> string \<Rightarrow> string \<Rightarrow> error + JobSuitabilityResult" where
  "analyzeJobSuitability env i jobPosting resume =
     (case generateContent env i (request_text env jobPosting resume) of
        ServiceFailure \<Rightarrow> Inl ServiceError
      | Unparseable \<Rightarrow> Inl SyntaxError
      | Payload r \<Rightarrow> Inr r)"

section \<open>The run\<close>

definition is_space :: "char \<Rightarrow> bool" where
  "is_space c = (c = CHR '' '' \<or> c = CHR 0x09 \<or> c = CHR 0x0A \<or> c = CHR 0x0B
                 \<or> c = CHR 0x0C \<or> c = CHR 0x0D)"

text \<open>\<open>String.prototype.trim\<close> on the ASCII white space (the other Unicode spaces are
  several bytes each and are left alone).\<close>

definition trim :: "string \<Rightarrow> string" where
  "trim s = rev (dropWhile is_space (rev (dropWhile is_space s)))"

datatype fatal = ResumeNotFound | ResumeEmpty

definition readResume :: "string option \<Rightarrow> fatal + string" where
  "readResume resume_file =
     (case resume_file of
        None \<Rightarrow> Inl ResumeNotFound
      | Some resumeContent \<Rightarrow>
          if trim resumeContent = [] then Inl ResumeEmpty else Inr resumeContent)"

text \<open>The directory of job postings is a list of files, name and content, in the order
  \<open>readdirSync\<close> lists them.\<close>

definition getJobPostingFiles :: "(string \<times> string) list \<Rightarrow> (string \<times> string) list" where
  "getJobPostingFiles dir = filter (\<lambda>f. endsWith (fst f) ''.txt'') dir"

definition jobsToAnalyze ::
  "AnalysisCache \<Rightarrow> (string \<times> string) list \<Rightarrow> (string \<times> string) list" where
  "jobsToAnalyze c jobFiles = filter (\<lambda>f. cache_get c (fst f) = None) jobFiles"

text \<open>
  The body of the loop for item \<open>i\<close>. An exception of \<open>analyzeJobSuitability\<close> is caught
  and counted. Otherwise the record is assigned into the cache, then the log line reads
  \<open>result.suitability_status.toUpperCase()\<close>, which throws a \<open>TypeError\<close> when the status
  is absent: the catch counts an error, the assignment stays, the save is skipped.
\<close>

definition analyze_item ::
  "environment \<Rightarrow> string \<Rightarrow> nat \<Rightarrow> string \<times> string \<Rightarrow> analyzer_state \<Rightarrow> analyzer_state" where
  "analyze_item env resume i f s =
     (let fileName = fst f;
          jobPosting = snd f;
          s1 = s\<lparr>submitted := submitted s @ [fileName]\<rparr>
      in case analyzeJobSuitability env i jobPosting resume of
           Inl e \<Rightarrow> s1\<lparr>errorCount := errorCount s1 + 1\<rparr>
         | Inr r \<Rightarrow>
             let c = cache_set (cache s1) fileName
                       \<lparr>jobFile = fileName,
                        jobId = fst (getLinkedInUrl fileName),
                        linkedinUrl = snd (getLinkedInUrl fileName),
                        analyzedAt = item_time env i,
                        result = r\<rparr>;
                 s2 = s1\<lparr>cache := c\<rparr>
             in case suitability_status r of
                  None \<Rightarrow> s2\<lparr>errorCount := errorCount s2 + 1\<rparr>
                | Some status \<Rightarrow> write_results c (s2\<lparr>successCount := successCount s2 + 1\<rparr>))"

fun analyze_loop ::
  "environment \<Rightarrow> string \<Rightarrow> nat \<Rightarrow> (string \<times> string) list \<Rightarrow> analyzer_state \<Rightarrow> analyzer_state"
  where
  "analyze_loop env resume i [] s = s"
| "analyze_loop env resume i (f # fs) s =
     analyze_loop env resume (Suc i) fs (analyze_item env resume i f s)"

section \<open>The reports\<close>

text \<open>\<open>Array.prototype.forEach\<close> with the index, threading the text built so far.\<close>

fun forEach :: "('a \<Rightarrow> nat \<Rightarrow> 's \<Rightarrow> 's) \<Rightarrow> 'a list \<Rightarrow> nat \<Rightarrow> 's \<Rightarrow> 's" where
  "forEach f [] i s = s"
| "forEach f (x # xs) i s = forEach f xs (Suc i) (f x i s)"

fun join :: "string \<Rightarrow> string list \<Rightarrow> string" where
  "join sep [] = []"
| "join sep [x] = x"
| "join sep (x # y # ys) = x @ sep @ join sep (y # ys)"

fun nat_text :: "nat \<Rightarrow> string" where
  "nat_text n =
     (if n < 10 then [char_of (48 + n)]
      else nat_text (n div 10) @ [char_of (48 + n mod 10)])"

declare nat_text.simps [simp del]

definition score_text :: "environment \<Rightarrow> rat option \<Rightarrow> string" where
  "score_text env v = (case v of None \<Rightarrow> ''undefined'' | Some x \<Rightarrow> number_text env x)"

definition rule80 :: string where
  "rule80 = replicate 80 CHR ''=''"

definition nl :: string where
  "nl = [CHR 0x0A]"

definition has_status :: "string \<Rightarrow> AnalysisRecord \<Rightarrow> bool" where
  "has_status st r = (suitability_status (result r) = Some st)"

definition nonempty_list :: "string list option \<Rightarrow> bool" where
  "nonempty_list v = (case v of None \<Rightarrow> False | Some xs \<Rightarrow> xs \<noteq> [])"

definition nonempty_text :: "string option \<Rightarrow> bool" where
  "nonempty_text v = (case v of None \<Rightarrow> False | Some x \<Rightarrow> x \<noteq> [])"

definition dash_lines :: "string list \<Rightarrow> string" where
  "dash_lines xs = forEach (\<lambda>x i report. report @ ''   - '' @ x @ nl) xs 0 []"

text \<open>The text one suitable entry adds to the report (the callback of the first
  \<open>forEach\<close> of \<open>generateSummaryReport\<close>).\<close>

definition suitable_entry :: "environment \<Rightarrow> AnalysisRecord \<Rightarrow> nat \<Rightarrow> string" where
  "suitable_entry env item index =
     nat_text (index + 1) @ ''. '' @ jobFile item @ '' - Score: ''
       @ score_text env (match_score (result item)) @ ''/10'' @ nl
     @ ''   LinkedIn: '' @ linkedinUrl item @ nl
     @ (if nonempty_list (key_strengths (result item))
        then ''   Strengths:'' @ nl @ dash_lines (the (key_strengths (result item))) else [])
     @ (if nonempty_list (key_gaps (result item))
        then ''   Gaps:'' @ nl @ dash_lines (the (key_gaps (result item))) else [])
     @ (if nonempty_text (reasoning (result item))
        then ''   Reasoning: '' @ the (reasoning (result item)) @ nl else [])
     @ ''   Analyzed: '' @ analyzedAt item @ nl @ nl"

definition maybe_entry :: "environment \<Rightarrow> AnalysisRecord \<Rightarrow> nat \<Rightarrow> string" where
  "maybe_entry env item index =
     nat_text (index + 1) @ ''. '' @ jobFile item @ '' - Score: ''
       @ score_text env (match_score (result item)) @ ''/10'' @ nl
     @ ''   LinkedIn: '' @ linkedinUrl item @ nl
     @ (if nonempty_text (reasoning (result item))
        then ''   Reasoning: '' @ the (reasoning (result item)) @ nl else [])
     @ (if nonempty_list (key_gaps (result item))
        then ''   Gaps: '' @ join '', '' (the (key_gaps (result item))) @ nl else [])
     @ nl"

definition summary_head :: "environment \<Rightarrow> AnalysisRecord list \<Rightarrow> string" where
  "summary_head env results =
     (let suitable = filter (has_status ''suitable'') results;
          maybe = filter (has_status ''maybe_suitable'') results
      in ''JOB SUITABILITY ANALYSIS REPORT'' @ nl
         @ rule80 @ nl
         @ ''Generated: '' @ summary_time env @ nl
         @ rule80 @ nl @ nl
         @ ''Total Jobs Analyzed: '' @ nat_text (length results) @ nl
         @ ''Suitable: '' @ nat_text (length suitable) @ '' | Maybe: '' @ nat_text (length maybe)
         @ '' | Not Suitable: '' @ nat_text (length results - length suitable - length maybe)
         @ nl @ nl
         @ rule80 @ nl
         @ ''SUITABLE JOBS (Sorted by Score)'' @ nl
         @ rule80 @ nl @ nl)"

definition maybe_head :: string where
  "maybe_head = nl @ rule80 @ nl @ ''MAYBE SUITABLE JOBS (Worth Considering)'' @ nl
                 @ rule80 @ nl @ nl"

definition generateSummaryReport :: "environment \<Rightarrow> AnalysisRecord list \<Rightarrow> string" where
  "generateSummaryReport env results =
     (let suitable = filter (has_status ''suitable'') results;
          maybe = filter (has_status ''maybe_suitable'') results;
          report1 = summary_head env results;
          report2 = forEach (\<lambda>item index report. report @ suitable_entry env item index)
                      suitable 0 report1
      in if length maybe > 0
         then forEach (\<lambda>item index report. report @ maybe_entry env item index)
                (take 20 maybe) 0 (report2 @ maybe_head)
         else report2)"

definition statusEmoji :: "AnalysisRecord \<Rightarrow> string" where
  "statusEmoji item =
     (if has_status ''suitable'' item then [CHR 0xE2, CHR 0x9C, CHR 0x93]
      else if has_status ''maybe_suitable'' item then ''~''
      else [CHR 0xE2, CHR 0x9C, CHR 0x97])"

definition top_entry :: "environment \<Rightarrow> AnalysisRecord \<Rightarrow> nat \<Rightarrow> string" where
  "top_entry env item index =
     nat_text (index + 1) @ ''. [Score: '' @ score_text env (match_score (result item))
       @ ''/10] '' @ statusEmoji item @ '' '' @ jobFile item @ nl
     @ ''   LinkedIn: '' @ linkedinUrl item @ nl
     @ (if nonempty_text (reasoning (result item))
        then ''   '' @ the (reasoning (result item)) @ nl else [])
     @ (if nonempty_list (key_gaps (result item))
        then ''   Gaps: '' @ join '', '' (the (key_gaps (result item))) @ nl else [])
     @ nl"

definition generateTopMatchesReport :: "environment \<Rightarrow> AnalysisRecord list \<Rightarrow> string" where
  "generateTopMatchesReport env results =
     (let sorted_results = array_sort score_compare results;
          report1 = ''TOP JOB MATCHES - QUICK REFERENCE'' @ nl
                    @ rule80 @ nl
                    @ ''Generated: '' @ top_matches_time env @ nl
                    @ rule80 @ nl @ nl
      in forEach (\<lambda>item index report. report @ top_entry env item index)
           sorted_results 0 report1)"

definition initial_state :: "AnalysisCache \<Rightarrow> disk \<Rightarrow> analyzer_state" where
  "initial_state c d = \<lparr>cache = c, files = d, successCount = 0, errorCount = 0, submitted = []\<rparr>"

text \<open>
  \<open>run\<close>: the resume is read after the cache is loaded; a missing or blank resume ends
  the process before anything is written. With nothing to analyze only \<open>summary.txt\<close>
  is written before the early \<open>return\<close>; otherwise the loop runs, the results are
  saved once more, and both reports are written.
\<close>

definition run ::
  "environment \<Rightarrow> disk \<Rightarrow> string option \<Rightarrow> (string \<times> string) list \<Rightarrow> fatal + analyzer_state" where
  "run env d resume_file dir =
     (let c = loadAnalysisCache (results_file d)
      in case readResume resume_file of
           Inl e \<Rightarrow> Inl e
         | Inr resume \<Rightarrow>
             let jobFiles = getJobPostingFiles dir;
                 todo = jobsToAnalyze c jobFiles;
                 s0 = initial_state c d
             in if length todo = 0
                then Inr (s0\<lparr>files := (files s0)
                            \<lparr>summary_file := Some (generateSummaryReport env (Object_values c))\<rparr>\<rparr>)
                else
                  let s1 = analyze_loop env resume 0 todo s0;
                      allResults = Object_values (cache s1);
                      s2 = write_results (cache s1) s1
                  in Inr (s2\<lparr>files := (files s2)
                            \<lparr>summary_file := Some (generateSummaryReport env allResults),
                             top_matches_file := Some (generateTopMatchesReport env allResults)\<rparr>\<rparr>))"

section \<open>The scraper: element tree to text\<close>

text \<open>
  A DOM node is a text node with its \<open>textContent\<close>, an element with its \<open>tagName\<close>
  and child nodes, or a node of another type (a comment), which the walk passes over.
\<close>

datatype node = TextNode string | ElementNode string "node list" | OtherNode

text \<open>Both conversions act on the ASCII letters; the bytes of other characters are
  left as they are. The list-item marker is spelt byte for byte as in the source file.\<close>

definition toLowerCase :: "string \<Rightarrow> string" where
  "toLowerCase s =
     map (\<lambda>c. if 65 \<le> (of_char c :: nat) \<and> (of_char c :: nat) \<le> 90
               then char_of ((of_char c :: nat) + 32) else c) s"

definition toUpperCase :: "string \<Rightarrow> string" where
  "toUpperCase s =
     map (\<lambda>c. if 97 \<le> (of_char c :: nat) \<and> (of_char c :: nat) \<le> 122
               then char_of ((of_char c :: nat) - 32) else c) s"

definition bullet :: string where
  "bullet = [CHR 0xC3, CHR 0xA2, CHR 0xE2, CHR 0x82, CHR 0xAC, CHR 0xC2, CHR 0xA2]"

definition is_heading :: "string \<Rightarrow> bool" where
  "is_heading tagName =
     (tagName = ''h1'' \<or> tagName = ''h2'' \<or> tagName = ''h3'' \<or> tagName = ''h4''
      \<or> tagName = ''h5'' \<or> tagName = ''h6'')"

text \<open>
  \<open>htmlToFormattedText element\<close> walks the child nodes of \<open>element\<close> and appends what
  each contributes: \<open>childNodes_text\<close> is its \<open>for\<close> loop and \<open>node_text\<close> the body of
  the loop. \<open>element_text\<close> is the chain of tests on the tag name, \<open>inner\<close> standing
  for the recursive call \<open>htmlToFormattedText(elem)\<close> that the branches make.
\<close>

definition element_text :: "string \<Rightarrow> string \<Rightarrow> string" where
  "element_text tagName inner =
     (if tagName = ''br'' then nl
      else if tagName = ''p'' then nl @ trim inner @ nl
      else if tagName = ''div'' then (if trim inner \<noteq> [] then nl @ trim inner else [])
      else if is_heading tagName then nl @ nl @ toUpperCase (trim inner) @ nl
      else if tagName = ''li'' then nl @ bullet @ '' '' @ trim inner
      else if tagName = ''ul'' \<or> tagName = ''ol'' then nl @ inner
      else if tagName = ''strong'' \<or> tagName = ''b'' then trim inner @ '' ''
      else if tagName = ''em'' \<or> tagName = ''i'' then trim inner @ '' ''
      else if tagName = ''span'' then inner
      else if tagName = ''a'' then inner
      else inner)"

fun node_text :: "node \<Rightarrow> string"
  and childNodes_text :: "node list \<Rightarrow> string" where
  "node_text (TextNode s) = (if trim s \<noteq> [] then trim s @ '' '' else [])"
| "node_text OtherNode = []"
| "node_text (ElementNode tag kids) = element_text (toLowerCase tag) (childNodes_text kids)"
| "childNodes_text [] = []"
| "childNodes_text (n # ns) = node_text n @ childNodes_text ns"

definition htmlToFormattedText :: "node \<Rightarrow> string" where
  "htmlToFormattedText element =
     (case element of ElementNode tag kids \<Rightarrow> childNodes_text kids | _ \<Rightarrow> [])"

text \<open>\<open>split("\n")\<close>, and the clean-up that follows the walk: every line trimmed, the
  empty ones dropped, the rest joined by line feeds.\<close>

fun split_on :: "char \<Rightarrow> string \<Rightarrow> string list" where
  "split_on c [] = [[]]"
| "split_on c (x # xs) =
     (if x = c then [] # split_on c xs
      else (case split_on c xs of [] \<Rightarrow> [[x]] | l # ls \<Rightarrow> (x # l) # ls))"

definition clean_lines :: "string \<Rightarrow> string list" where
  "clean_lines formatted = filter (\<lambda>line. length line > 0) (map trim (split_on (CHR 0x0A) formatted))"

definition jobDetailsText :: "node \<Rightarrow> string" where
  "jobDetailsText el = join nl (clean_lines (htmlToFormattedText el))"

text \<open>A tree without text: every text node in it is blank and it holds no list item
  (a list item writes its marker whatever it contains).\<close>

fun no_text :: "node \<Rightarrow> bool" where
  "no_text (TextNode s) = (trim s = [])"
| "no_text OtherNode = True"
| "no_text (ElementNode tag kids) = (toLowerCase tag \<noteq> ''li'' \<and> list_all no_text kids)"

section \<open>The scraper: job cards and the record store\<close>

text \<open>
  \<open>String.prototype.replace\<close> with a string pattern replaces the first occurrence.
  \<open>match_job_view\<close> is the regular expression \<open>/\/jobs\/view\/(\d+)/\<close>: the leftmost
  place where \<open>/jobs/view/\<close> is followed by a digit, and the longest run of digits there.
\<close>

fun replace_first :: "string \<Rightarrow> string \<Rightarrow> string \<Rightarrow> string" where
  "replace_first pat rep [] = (if pat = [] then rep else [])"
| "replace_first pat rep (x # xs) =
     (if take (length pat) (x # xs) = pat then rep @ drop (length pat) (x # xs)
      else x # replace_first pat rep xs)"

definition is_digit :: "char \<Rightarrow> bool" where
  "is_digit c = (48 \<le> (of_char c :: nat) \<and> (of_char c :: nat) \<le> 57)"

fun match_job_view :: "string \<Rightarrow> string option" where
  "match_job_view [] = None"
| "match_job_view (x # xs) =
     (if take 11 (x # xs) = ''/jobs/view/'' \<and> takeWhile is_digit (drop 11 (x # xs)) \<noteq> []
      then Some (takeWhile is_digit (drop 11 (x # xs)))
      else match_job_view xs)"

text \<open>
  What the page shows for one job card: whether a browser call of the item fails before
  the identifier is compared (the click, the evaluation), the first \<open>a\<close> element of the
  card (\<open>None\<close>: there is none; \<open>Some None\<close>: it has no \<open>href\<close>), the \<open>#job-details\<close>
  element after the click, and the text content of the company, location and title
  elements (\<open>None\<close>: no such element).
\<close>

record card =
  item_fails :: bool
  anchor :: "string option option"
  job_details :: "node option"
  company_element :: "string option"
  location_element :: "string option"
  title_element :: "string option"

record JobPosting =
  posting_id :: string
  title :: string
  company :: string
  location :: string
  description :: string
  url :: string
  rawText :: string

record scraper_state =
  store :: "(string \<times> string) list"
  jobs :: "JobPosting list"
  skippedCount :: nat

definition existingJobIds :: "(string \<times> string) list \<Rightarrow> string list" where
  "existingJobIds dir =
     map (\<lambda>file. replace_first ''.txt'' [] file) (filter (\<lambda>f. endsWith f ''.txt'') (map fst dir))"

text \<open>The identifier of a card; \<open>stamp\<close> is the \<open>Date.now()\<close> and \<open>Math.random()\<close> part
  of a synthesized identifier, read from outside.\<close>

definition card_jobId :: "string \<Rightarrow> card \<Rightarrow> string" where
  "card_jobId stamp c =
     (case anchor c of
        None \<Rightarrow> ''job-'' @ stamp
      | Some link \<Rightarrow>
          (let href = (case link of None \<Rightarrow> [] | Some h \<Rightarrow> h)
           in case match_job_view href of
                Some m \<Rightarrow> m
              | None \<Rightarrow> ''job-'' @ stamp))"

definition text_or_NA :: "string option \<Rightarrow> string" where
  "text_or_NA el = (case el of None \<Rightarrow> ''N/A'' | Some t \<Rightarrow> if t \<noteq> [] then trim t else ''N/A'')"

definition or_NA :: "string \<Rightarrow> string" where
  "or_NA s = (if trim s \<noteq> [] then trim s else ''N/A'')"

definition fileContent :: "string \<Rightarrow> string \<Rightarrow> string \<Rightarrow> string" where
  "fileContent company_name location_name details =
     ''Company: '' @ company_name @ nl @ ''Location: '' @ location_name @ nl @ nl @ trim details"

text \<open>The body of the loop over the cards of a page, from the click to the write; an
  exception anywhere in it is caught and the card is left.\<close>

definition scrape_card :: "string list \<Rightarrow> string \<Rightarrow> card \<Rightarrow> scraper_state \<Rightarrow> scraper_state" where
  "scrape_card existing stamp c st =
     (if item_fails c then st
      else
        let jid = card_jobId stamp c
        in if jid \<in> set existing then st\<lparr>skippedCount := skippedCount st + 1\<rparr>
           else
             case job_details c of
               None \<Rightarrow> st
             | Some el \<Rightarrow>
                 let details = jobDetailsText el;
                     company_name = text_or_NA (company_element c);
                     location_name = text_or_NA (location_element c);
                     title_name = text_or_NA (title_element c);
                     job = \<lparr>posting_id = jid,
                            title = or_NA title_name,
                            company = or_NA company_name,
                            location = or_NA location_name,
                            description = trim details,
                            url = ''https://www.linkedin.com/jobs/view/'' @ jid,
                            rawText = trim details\<rparr>
                 in st\<lparr>jobs := jobs st @ [job],
                       store := AList.update (jid @ ''.txt'')
                                  (fileContent company_name location_name details) (store st)\<rparr>)"

fun scrape_cards ::
  "string list \<Rightarrow> (nat \<Rightarrow> string) \<Rightarrow> nat \<Rightarrow> card list \<Rightarrow> scraper_state \<Rightarrow> scraper_state" where
  "scrape_cards existing stamps i [] st = st"
| "scrape_cards existing stamps i (c # cs) st =
     scrape_cards existing stamps (Suc i) cs (scrape_card existing (stamps i) c st)"

text \<open>The listing is the finite list of its pages, the last one being the page whose
  next button is absent or disabled; \<open>stamps p i\<close> is the stamp read at card \<open>i\<close> of
  page \<open>p\<close>.\<close>

fun scrape_pages ::
  "string list \<Rightarrow> (nat \<Rightarrow> nat \<Rightarrow> string) \<Rightarrow> nat \<Rightarrow> card list list \<Rightarrow> scraper_state
     \<Rightarrow> scraper_state" where
  "scrape_pages existing stamps p [] st = st"
| "scrape_pages existing stamps p (cards # rest) st =
     scrape_pages existing stamps (Suc p) rest (scrape_cards existing (stamps p) 0 cards st)"

text \<open>
  When the walk over the pages is done, the jobs collected in this run are written as
  JSON to \<open>_summary.json\<close>, in the same directory as the records. \<open>stringify\<close> is
  \<open>JSON.stringify(jobs, null, 2)\<close>, taken as a parameter. A failure that ends the walk
  early (the list of a next page does not appear) is not modelled.
\<close>

definition write_summary :: "(JobPosting list \<Rightarrow> string) \<Rightarrow> scraper_state \<Rightarrow> scraper_state" where
  "write_summary stringify st =
     st\<lparr>store := AList.update ''_summary.json'' (stringify (jobs st)) (store st)\<rparr>"

definition scrapeLinkedInJobs ::
  "(JobPosting list \<Rightarrow> string) \<Rightarrow> (nat \<Rightarrow> nat \<Rightarrow> string) \<Rightarrow> (string \<times> string) list
     \<Rightarrow> card list list \<Rightarrow> scraper_state" where
  "scrapeLinkedInJobs stringify stamps dir pages =
     write_summary stringify
       (scrape_pages (existingJobIds dir) stamps 0 pages
          \<lparr>store = dir, jobs = [], skippedCount = 0\<rparr>)"

section \<open>Predicates of the statements and invariants of the proofs\<close>

text \<open>The files that \<open>scrape_card\<close> can write for the cards \<open>C\<close>: name and content.\<close>

definition written_for :: "card set \<Rightarrow> (string \<times> string) set" where
  "written_for C =
     {(card_jobId stamp c @ ''.txt'',
       fileContent (text_or_NA (company_element c)) (text_or_NA (location_element c))
         (jobDetailsText el)) | c stamp el. c \<in> C \<and> job_details c = Some el}"

text \<open>A card with a canonical link: its first \<open>a\<close> element has an \<open>href\<close> in which the
  pattern \<open>/jobs/view/<digits>\<close> occurs, so no identifier is synthesized for it.\<close>

definition has_canonical_link :: "card \<Rightarrow> bool" where
  "has_canonical_link c =
     (case anchor c of
        Some (Some h) \<Rightarrow> match_job_view h \<noteq> None
      | _ \<Rightarrow> False)"

text \<open>A card that the loop can persist: no browser call of the item fails and the details
  element is there.\<close>

definition persistable :: "card \<Rightarrow> bool" where
  "persistable c = (\<not> item_fails c \<and> job_details c \<noteq> None)"

text \<open>The file names that a results file holds entries for.\<close>

definition file_keys :: "AnalysisRecord list option \<Rightarrow> string set" where
  "file_keys file = (case file of None \<Rightarrow> {} | Some records \<Rightarrow> jobFile ` set records)"

text \<open>Every entry of the cache is filed under its own \<open>jobFile\<close>.\<close>

definition keyed :: "AnalysisCache \<Rightarrow> bool" where
  "keyed c = (\<forall>kv\<in>set c. jobFile (snd kv) = fst kv)"

text \<open>What holds of the cache and the results file throughout a run that started with
  entries for the file names \<open>K\<close>.\<close>

definition ledger_inv :: "string set \<Rightarrow> analyzer_state \<Rightarrow> bool" where
  "ledger_inv K s =
     (keyed (cache s) \<and> K \<subseteq> file_keys (results_file (files s))
      \<and> K \<subseteq> fst ` set (cache s)
      \<and> file_keys (results_file (files s)) \<subseteq> fst ` set (cache s))"

section \<open>Sample data\<close>

text \<open>Concrete values on which the theorems below are instantiated.\<close>

definition sample_result :: "string \<Rightarrow> rat \<Rightarrow> JobSuitabilityResult" where
  "sample_result st sc =
     \<lparr>suitability_status = Some st, match_score = Some sc, key_strengths = None,
      key_gaps = None, reasoning = None\<rparr>"

definition sample_record :: "string \<Rightarrow> string \<Rightarrow> rat \<Rightarrow> AnalysisRecord" where
  "sample_record name st sc =
     \<lparr>jobFile = name, jobId = fst (getLinkedInUrl name), linkedinUrl = snd (getLinkedInUrl name),
      analyzedAt = ''T'', result = sample_result st sc\<rparr>"

definition no_files :: disk where
  "no_files = \<lparr>results_file = None, summary_file = None, top_matches_file = None\<rparr>"

text \<open>A service that answers call \<open>i\<close> with the \<open>i\<close>-th response of a list, and fails
  once the list is used up.\<close>

definition scripted :: "response list \<Rightarrow> nat \<Rightarrow> string \<Rightarrow> response" where
  "scripted rs i t = (if i < length rs then rs ! i else ServiceFailure)"

definition sample_env :: "response list \<Rightarrow> environment" where
  "sample_env rs =
     \<lparr>generateContent = scripted rs, item_time = (\<lambda>i. ''T''), summary_time = ''T1'',
      top_matches_time = ''T2'', JOB_ANALYSIS_PROMPT = ''P'', number_text = (\<lambda>x. ''#'')\<rparr>"

definition sample_card :: card where
  "sample_card =
     \<lparr>item_fails = False,
      anchor = Some (Some ''https://www.linkedin.com/jobs/view/123/?trk=x''),
      job_details = Some (ElementNode ''DIV'' [ElementNode ''P'' [TextNode ''Great job'']]),
      company_element = Some '' Acme '',
      location_element = Some ''Berlin'',
      title_element = None\<rparr>"

definition sample_stamps :: "string \<Rightarrow> nat \<Rightarrow> nat \<Rightarrow> string" where
  "sample_stamps stamp p i = stamp"

definition sample_stringify :: "JobPosting list \<Rightarrow> string" where
  "sample_stringify js = ''['' @ join '','' (map posting_id js) @ '']''"

definition sample_unlinked_card :: card where
  "sample_unlinked_card = sample_card\<lparr>anchor := None\<rparr>"

section \<open>Properties of the sort\<close>

lemma mset_insort_cmp: "mset (insort_cmp f x ys) = add_mset x (mset ys)"
  by (induction ys) auto

lemma mset_array_sort: "mset (array_sort f xs) = mset xs"
  by (induction xs) (auto simp: array_sort_def mset_insort_cmp)

lemma set_insort_cmp: "set (insort_cmp f x ys) = insert x (set ys)"
  by (induction ys) auto

lemma set_array_sort: "set (array_sort f xs) = set xs"
  by (induction xs) (auto simp: array_sort_def set_insort_cmp)

lemma SortCompare_score:
  "has_score a \<Longrightarrow> has_score b \<Longrightarrow> (SortCompare score_compare a b \<le> 0) = score_ge a b"
  by (auto simp: SortCompare_def score_compare_def score_ge_def has_score_def)

lemma score_ge_total: "has_score a \<Longrightarrow> has_score b \<Longrightarrow> \<not> score_ge a b \<Longrightarrow> score_ge b a"
  by (auto simp: score_ge_def has_score_def)

lemma score_ge_trans: "score_ge a b \<Longrightarrow> score_ge b c \<Longrightarrow> score_ge a c"
  by (auto simp: score_ge_def split: option.splits)

lemma sorted_insort_score:
  assumes "has_score x" "\<forall>y\<in>set ys. has_score y" "sorted_wrt score_ge ys"
  shows "sorted_wrt score_ge (insort_cmp score_compare x ys)"
  using assms
proof (induction ys)
  case Nil
  then show ?case by simp
next
  case (Cons y ys)
  show ?case
  proof (cases "score_ge x y")
    case True
    have "\<forall>z\<in>set ys. score_ge x z"
      using Cons.prems(3) True score_ge_trans by auto
    with True Cons.prems show ?thesis
      by (simp add: SortCompare_score)
  next
    case False
    then have yx: "score_ge y x"
      using Cons.prems(1,2) score_ge_total by simp
    have "sorted_wrt score_ge (insort_cmp score_compare x ys)"
      using Cons by simp
    with False yx Cons.prems show ?thesis
      by (auto simp: SortCompare_score set_insort_cmp)
  qed
qed

lemma sorted_array_sort_score:
  "\<forall>y\<in>set xs. has_score y \<Longrightarrow> sorted_wrt score_ge (array_sort score_compare xs)"
proof (induction xs)
  case Nil
  then show ?case by (simp add: array_sort_def)
next
  case (Cons x xs)
  have "sorted_wrt score_ge (insort_cmp score_compare x (array_sort score_compare xs))"
    using Cons by (intro sorted_insort_score) (auto simp: set_array_sort)
  then show ?case by (simp add: array_sort_def)
qed

text \<open>Stability: the records of one score keep the order they had in the input.\<close>

lemma filter_insort_score:
  assumes "has_score x" "\<forall>y\<in>set ys. has_score y" "sorted_wrt score_ge ys"
  shows "filter (\<lambda>r. match_score (result r) = v) (insort_cmp score_compare x ys)
       = filter (\<lambda>r. match_score (result r) = v) (x # ys)"
  using assms
proof (induction ys)
  case Nil
  then show ?case by simp
next
  case (Cons y ys)
  show ?case
  proof (cases "score_ge x y")
    case True
    with Cons.prems show ?thesis by (simp add: SortCompare_score)
  next
    case False
    then have ne: "match_score (result x) \<noteq> match_score (result y)"
      using Cons.prems(1,2) by (auto simp: score_ge_def has_score_def)
    have "filter (\<lambda>r. match_score (result r) = v) (insort_cmp score_compare x ys)
        = filter (\<lambda>r. match_score (result r) = v) (x # ys)"
      using Cons by simp
    with False ne Cons.prems show ?thesis
      by (auto simp: SortCompare_score)
  qed
qed

lemma filter_array_sort_score:
  "\<forall>y\<in>set xs. has_score y \<Longrightarrow>
   filter (\<lambda>r. match_score (result r) = v) (array_sort score_compare xs)
     = filter (\<lambda>r. match_score (result r) = v) xs"
proof (induction xs)
  case Nil
  then show ?case by (simp add: array_sort_def)
next
  case (Cons x xs)
  have "filter (\<lambda>r. match_score (result r) = v)
          (insort_cmp score_compare x (array_sort score_compare xs))
      = filter (\<lambda>r. match_score (result r) = v) (x # array_sort score_compare xs)"
    using Cons.prems
    by (intro filter_insort_score sorted_array_sort_score) (auto simp: set_array_sort)
  with Cons show ?case by (simp add: array_sort_def)
qed

section \<open>The ledger snapshot is sorted by score\<close>

lemma set_values_cache_set:
  "set (Object_values (cache_set c k v)) \<subseteq> insert v (set (Object_values c))"
  by (induction c) (auto simp: cache_set_def Object_values_def)

lemma cache_upsert: "cache (upsert s kv) = cache_set (cache s) (fst kv) (snd kv)"
  by (simp add: upsert_def write_results_def Let_def)

lemma results_upsert:
  "results_file (files (upsert s kv)) = Some (saveAnalysisCache (cache (upsert s kv)))"
  by (simp add: upsert_def write_results_def Let_def)

lemma has_score_upsert:
  assumes "\<forall>r\<in>set (Object_values (cache s)). has_score r" "has_score (snd kv)"
  shows "\<forall>r\<in>set (Object_values (cache (upsert s kv))). has_score r"
  using assms set_values_cache_set [of "cache s" "fst kv" "snd kv"]
  by (auto simp: cache_upsert)

lemma has_score_upserts:
  assumes "\<forall>r\<in>set (Object_values (cache s)). has_score r" "\<forall>kv\<in>set ups. has_score (snd kv)"
  shows "\<forall>r\<in>set (Object_values (cache (foldl upsert s ups))). has_score r"
  using assms
proof (induction ups arbitrary: s)
  case Nil
  then show ?case by simp
next
  case (Cons kv ups)
  have "\<forall>r\<in>set (Object_values (cache (upsert s kv))). has_score r"
    using Cons.prems by (intro has_score_upsert) auto
  then show ?case
    using Cons.IH [of "upsert s kv"] Cons.prems(2) by simp
qed

lemma results_upserts:
  "ups \<noteq> [] \<Longrightarrow>
   results_file (files (foldl upsert s ups)) = Some (saveAnalysisCache (cache (foldl upsert s ups)))"
proof (induction ups arbitrary: s rule: rev_induct)
  case Nil
  then show ?case by simp
next
  case (snoc kv ups)
  show ?case by (simp add: results_upsert)
qed

section \<open>The work set and the calls of the classifier\<close>

lemma keys_cache_set: "fst ` set (cache_set c k v) = insert k (fst ` set c)"
  by (simp add: cache_set_def dom_update)

lemma keys_fold_cache_set:
  "fst ` set (fold (\<lambda>r c. cache_set c (jobFile r) r) records c) = fst ` set c \<union> jobFile ` set records"
  by (induction records arbitrary: c) (auto simp: keys_cache_set)

lemma keys_loadAnalysisCache: "fst ` set (loadAnalysisCache file) = file_keys file"
  by (cases "file") (simp_all add: loadAnalysisCache_def file_keys_def keys_fold_cache_set)

lemma cache_get_None: "(cache_get c k = None) = (k \<notin> fst ` set c)"
  by (simp add: cache_get_def map_of_eq_None_iff)

lemma submitted_analyze_item:
  "submitted (analyze_item env resume i f s) = submitted s @ [fst f]"
  by (simp add: analyze_item_def write_results_def Let_def split: sum.splits option.splits)

lemma submitted_analyze_loop:
  "submitted (analyze_loop env resume i fs s) = submitted s @ map fst fs"
  by (induction fs arbitrary: i s) (simp_all add: submitted_analyze_item)

lemma submitted_run:
  assumes "run env d resume_file dir = Inr s"
  shows "submitted s
       = map fst (jobsToAnalyze (loadAnalysisCache (results_file d)) (getJobPostingFiles dir))"
  using assms
  by (auto simp: run_def Let_def initial_state_def write_results_def submitted_analyze_loop
      split: sum.splits if_splits)

lemma run_returns:
  "readResume resume_file = Inr resume \<Longrightarrow> \<exists>s. run env d resume_file dir = Inr s"
  by (simp add: run_def Let_def)

text \<open>
  C3. In every run that gets past reading the resume, the file names handed to the
  classifier are exactly the names of the work set, in its order; and the file name of a
  record that the results file held when the run started is neither in the work set nor
  among the names handed to the classifier.
\<close>

theorem ledger_entries_not_resubmitted:
  assumes "run env d resume_file dir = Inr s"
    and "results_file d = Some records"
    and "r \<in> set records"
  shows "jobFile r \<notin> fst ` set (jobsToAnalyze (loadAnalysisCache (results_file d))
                                   (getJobPostingFiles dir))
       \<and> jobFile r \<notin> set (submitted s)
       \<and> submitted s = map fst (jobsToAnalyze (loadAnalysisCache (results_file d))
                                    (getJobPostingFiles dir))"
proof -
  let ?c = "loadAnalysisCache (results_file d)"
  let ?todo = "jobsToAnalyze ?c (getJobPostingFiles dir)"
  have "jobFile r \<in> fst ` set ?c"
    using assms(2,3) by (simp add: keys_loadAnalysisCache file_keys_def)
  then have "cache_get ?c (jobFile r) \<noteq> None"
    by (simp add: cache_get_None)
  then have out: "jobFile r \<notin> fst ` set ?todo"
    by (auto simp: jobsToAnalyze_def)
  have sub: "submitted s = map fst ?todo"
    using assms(1) by (rule submitted_run)
  from out sub show ?thesis by simp
qed

theorem ledger_entries_not_resubmitted_witness:
  "map_sum id submitted
     (run (sample_env [Payload (sample_result ''suitable'' 7)])
        (no_files\<lparr>results_file := Some [sample_record ''1.txt'' ''suitable'' 9]\<rparr>)
        (Some ''resume'') [(''1.txt'', ''one''), (''2.txt'', ''two'')])
   = Inr [''2.txt'']"
proof -
  let ?env = "sample_env [Payload (sample_result ''suitable'' 7)]"
  let ?d = "no_files\<lparr>results_file := Some [sample_record ''1.txt'' ''suitable'' 9]\<rparr>"
  let ?dir = "[(''1.txt'', ''one''), (''2.txt'', ''two'')]"
  have "readResume (Some ''resume'') = Inr ''resume''"
    by (simp add: readResume_def trim_def is_space_def)
  then obtain s where s: "run ?env ?d (Some ''resume'') ?dir = Inr s"
    using run_returns by blast
  have f: "results_file ?d = Some [sample_record ''1.txt'' ''suitable'' 9]"
    by simp
  have m: "sample_record ''1.txt'' ''suitable'' 9 \<in> set [sample_record ''1.txt'' ''suitable'' 9]"
    by simp
  have todo: "map fst (jobsToAnalyze (loadAnalysisCache (results_file ?d)) (getJobPostingFiles ?dir))
      = [''2.txt'']"
    by (simp add: jobsToAnalyze_def loadAnalysisCache_def getJobPostingFiles_def endsWith_def
        cache_get_def cache_set_def sample_record_def)
  from ledger_entries_not_resubmitted [OF s f m] todo have "submitted s = [''2.txt'']"
    by simp
  with s show ?thesis by simp
qed

section \<open>Immediate saves and interrupted runs\<close>

lemma set_cache_set: "set (cache_set c k v) \<subseteq> insert (k, v) (set c)"
  by (induction c) (auto simp: cache_set_def)

lemma keyed_cache_set: "keyed c \<Longrightarrow> jobFile v = k \<Longrightarrow> keyed (cache_set c k v)"
  using set_cache_set [of c k v] by (auto simp: keyed_def)

lemma keyed_fold_cache_set:
  "keyed c \<Longrightarrow> keyed (fold (\<lambda>r c. cache_set c (jobFile r) r) records c)"
  by (induction records arbitrary: c) (simp_all add: keyed_cache_set)

lemma keyed_loadAnalysisCache: "keyed (loadAnalysisCache f0)"
proof -
  have "keyed []" by (simp add: keyed_def)
  then show ?thesis
    by (cases f0) (simp_all add: loadAnalysisCache_def keyed_fold_cache_set)
qed

lemma file_keys_save: "keyed c \<Longrightarrow> file_keys (Some (saveAnalysisCache c)) = fst ` set c"
  by (force simp: file_keys_def saveAnalysisCache_def set_array_sort Object_values_def keyed_def)

lemma ledger_inv_item:
  assumes "ledger_inv K s"
  shows "ledger_inv K (analyze_item env resume i f s)"
  using assms
  by (auto simp: ledger_inv_def analyze_item_def write_results_def Let_def file_keys_save
      keyed_cache_set keys_cache_set split: sum.splits option.splits)

lemma ledger_inv_loop:
  "ledger_inv K s \<Longrightarrow> ledger_inv K (analyze_loop env resume i fs s)"
  by (induction fs arbitrary: i s) (simp_all add: ledger_inv_item)

lemma keys_analyze_item:
  "fst ` set (cache (analyze_item env resume i f s)) \<subseteq> insert (fst f) (fst ` set (cache s))"
  by (auto simp: analyze_item_def write_results_def Let_def keys_cache_set
      split: sum.splits option.splits)

lemma keys_analyze_loop:
  "fst ` set (cache (analyze_loop env resume i fs s)) \<subseteq> fst ` set (cache s) \<union> fst ` set fs"
proof (induction fs arbitrary: i s)
  case Nil
  then show ?case by simp
next
  case (Cons f fs)
  show ?case
    using Cons.IH [of "Suc i" "analyze_item env resume i f s"] keys_analyze_item [of env resume i f s]
    by auto
qed

lemma analyze_loop_append:
  "analyze_loop env resume i (xs @ ys) s
     = analyze_loop env resume (i + length xs) ys (analyze_loop env resume i xs s)"
  by (induction xs arbitrary: i s) simp_all

lemma filter_not_in_take:
  "distinct (map g xs) \<Longrightarrow> filter (\<lambda>x. g x \<notin> g ` set (take k xs)) xs = drop k xs"
proof (induction xs arbitrary: k)
  case Nil
  then show ?case by simp
next
  case (Cons x xs)
  show ?case
  proof (cases k)
    case 0
    then show ?thesis by simp
  next
    case (Suc j)
    have "filter (\<lambda>y. g y \<notin> g ` set (take j xs)) xs = drop j xs"
      using Cons by simp
    moreover have "g x \<notin> g ` set xs"
      using Cons.prems by simp
    then have "\<forall>y\<in>set xs. g y \<noteq> g x"
      by (metis imageI)
    then have "filter (\<lambda>y. g y \<notin> insert (g x) (g ` set (take j xs))) xs
             = filter (\<lambda>y. g y \<notin> g ` set (take j xs)) xs"
      by (intro filter_cong) auto
    ultimately show ?thesis using Suc by simp
  qed
qed

lemma analyze_item_saves:
  assumes "analyzeJobSuitability env i (snd f) resume = Inr r" "suitability_status r \<noteq> None"
  shows "results_file (files (analyze_item env resume i f s))
           = Some (saveAnalysisCache (cache (analyze_item env resume i f s)))
       \<and> (\<exists>e. cache_get (cache (analyze_item env resume i f s)) (fst f) = Some e
              \<and> jobFile e = fst f \<and> result e = r)"
  using assms
  by (auto simp: analyze_item_def write_results_def Let_def cache_get_def cache_set_def
      update_conv')

lemma analyze_item_entry_saved:
  assumes "analyzeJobSuitability env i (snd f) resume = Inr r" "suitability_status r \<noteq> None"
  shows "\<exists>snapshot e. results_file (files (analyze_item env resume i f s)) = Some snapshot
           \<and> e \<in> set snapshot \<and> jobFile e = fst f \<and> result e = r"
proof -
  let ?s = "analyze_item env resume i f s"
  from analyze_item_saves [OF assms, of s] obtain e where
    saved: "results_file (files ?s) = Some (saveAnalysisCache (cache ?s))"
    and e: "cache_get (cache ?s) (fst f) = Some e" "jobFile e = fst f" "result e = r"
    by blast
  from e(1) have "(fst f, e) \<in> set (cache ?s)"
    by (simp add: cache_get_def map_of_SomeD)
  then have "e \<in> set (saveAnalysisCache (cache ?s))"
    by (force simp: saveAnalysisCache_def set_array_sort Object_values_def)
  with saved e show ?thesis by blast
qed

lemma jobsToAnalyze_after_crash:
  assumes c: "c = loadAnalysisCache (results_file d)"
    and todo: "todo = jobsToAnalyze c (getJobPostingFiles dir)"
    and d': "d' = files (analyze_loop env resume 0 (take k todo) (initial_state c d))"
    and dist: "distinct (map fst dir)"
    and committed: "fst ` set (take k todo) \<subseteq> file_keys (results_file d')"
  shows "jobsToAnalyze (loadAnalysisCache (results_file d')) (getJobPostingFiles dir) = drop k todo"
proof -
  let ?K = "file_keys (results_file d)"
  let ?T = "fst ` set (take k todo)"
  let ?sk = "analyze_loop env resume 0 (take k todo) (initial_state c d)"
  have keys_c: "fst ` set c = ?K"
    using c by (simp add: keys_loadAnalysisCache)
  have "ledger_inv ?K (initial_state c d)"
    using keys_c c by (simp add: ledger_inv_def initial_state_def keyed_loadAnalysisCache)
  then have inv: "ledger_inv ?K ?sk"
    by (rule ledger_inv_loop)
  have "fst ` set (cache ?sk) \<subseteq> ?K \<union> ?T"
    using keys_analyze_loop [of env resume 0 "take k todo" "initial_state c d"] keys_c
    by (simp add: initial_state_def)
  with inv committed have keys_d': "file_keys (results_file d') = ?K \<union> ?T"
    unfolding ledger_inv_def d' by blast
  have "distinct (map fst todo)"
    using dist by (simp add: todo jobsToAnalyze_def getJobPostingFiles_def distinct_map_filter)
  then have rest: "filter (\<lambda>f. fst f \<notin> ?T) todo = drop k todo"
    by (rule filter_not_in_take)
  have "jobsToAnalyze (loadAnalysisCache (results_file d')) (getJobPostingFiles dir)
      = filter (\<lambda>f. fst f \<notin> ?K \<union> ?T) (getJobPostingFiles dir)"
    by (simp add: jobsToAnalyze_def cache_get_None keys_loadAnalysisCache keys_d')
  also have "\<dots> = filter (\<lambda>f. fst f \<notin> ?T) todo"
    by (simp add: todo jobsToAnalyze_def cache_get_None keys_c conj_commute)
  finally show ?thesis using rest by simp
qed

text \<open>
  C4. A classification that succeeds is in the results file when its loop iteration
  ends: the file then holds the sorted cache, with an entry for the item that carries
  the result. The state after the first \<open>k\<close> iterations is the state the whole loop
  passes through. If the process stops there, with \<open>k\<close> less than the size \<open>n\<close> of the
  work set and with entries for the items 1 to \<open>k\<close> in the results file, then a fresh run
  over the same directory (whose file names are distinct) computes as its work set
  exactly the remaining \<open>n - k\<close> items, in their order.
\<close>

theorem crash_leaves_remaining_work:
  assumes "c = loadAnalysisCache (results_file d)"
    and "todo = jobsToAnalyze c (getJobPostingFiles dir)"
    and "d' = files (analyze_loop env resume 0 (take k todo) (initial_state c d))"
    and "distinct (map fst dir)"
    and "k < length todo"
    and "fst ` set (take k todo) \<subseteq> file_keys (results_file d')"
  shows "jobsToAnalyze (loadAnalysisCache (results_file d')) (getJobPostingFiles dir) = drop k todo
       \<and> length (jobsToAnalyze (loadAnalysisCache (results_file d')) (getJobPostingFiles dir))
           = length todo - k
       \<and> analyze_loop env resume 0 todo (initial_state c d)
           = analyze_loop env resume k (drop k todo)
               (analyze_loop env resume 0 (take k todo) (initial_state c d))
       \<and> (\<forall>i f s r. analyzeJobSuitability env i (snd f) resume = Inr r
             \<longrightarrow> suitability_status r \<noteq> None
             \<longrightarrow> (\<exists>snapshot e. results_file (files (analyze_item env resume i f s)) = Some snapshot
                    \<and> e \<in> set snapshot \<and> jobFile e = fst f \<and> result e = r))"
proof -
  have fresh: "jobsToAnalyze (loadAnalysisCache (results_file d')) (getJobPostingFiles dir)
      = drop k todo"
    using assms(1,2,3,4,6) by (rule jobsToAnalyze_after_crash)
  have "analyze_loop env resume 0 (take k todo @ drop k todo) (initial_state c d)
      = analyze_loop env resume (0 + length (take k todo)) (drop k todo)
          (analyze_loop env resume 0 (take k todo) (initial_state c d))"
    by (rule analyze_loop_append)
  then have split: "analyze_loop env resume 0 todo (initial_state c d)
      = analyze_loop env resume k (drop k todo)
          (analyze_loop env resume 0 (take k todo) (initial_state c d))"
    using assms(5) by (simp add: min_def)
  from fresh split analyze_item_entry_saved show ?thesis
    by (simp add: analyze_item_entry_saved)
qed

theorem crash_leaves_remaining_work_witness:
  "jobsToAnalyze
     (loadAnalysisCache (results_file (files
        (analyze_loop (sample_env [Payload (sample_result ''suitable'' 7), Payload (sample_result ''suitable'' 7)]) ''resume'' 0
           (take 2 [(''1.txt'', ''one''), (''2.txt'', ''two''), (''3.txt'', ''three'')])
           (initial_state [] no_files)))))
     (getJobPostingFiles [(''1.txt'', ''one''), (''2.txt'', ''two''), (''3.txt'', ''three'')])
   = [(''3.txt'', ''three'')]"
proof -
  let ?env = "sample_env [Payload (sample_result ''suitable'' 7), Payload (sample_result ''suitable'' 7)]"
  let ?dir = "[(''1.txt'', ''one''), (''2.txt'', ''two''), (''3.txt'', ''three'')]"
  let ?d' = "files (analyze_loop ?env ''resume'' 0 (take 2 ?dir) (initial_state [] no_files))"
  have c: "[] = loadAnalysisCache (results_file no_files)"
    by (simp add: loadAnalysisCache_def no_files_def)
  have todo: "?dir = jobsToAnalyze [] (getJobPostingFiles ?dir)"
    by (simp add: jobsToAnalyze_def getJobPostingFiles_def endsWith_def cache_get_def)
  have d': "?d' = files (analyze_loop ?env ''resume'' 0 (take 2 ?dir) (initial_state [] no_files))"
    by (rule refl)
  have dist: "distinct (map fst ?dir)" by simp
  have k: "2 < length ?dir" by simp
  have fk: "file_keys (results_file ?d') = {''1.txt'', ''2.txt''}"
    by (simp add: analyze_item_def analyzeJobSuitability_def sample_env_def scripted_def sample_result_def
        write_results_def initial_state_def cache_set_def saveAnalysisCache_def array_sort_def
        Object_values_def SortCompare_def score_compare_def file_keys_def Let_def
        numeral_2_eq_2 insert_commute)
  have committed: "fst ` set (take 2 ?dir) \<subseteq> file_keys (results_file ?d')"
    unfolding fk by (simp add: numeral_2_eq_2)
  from crash_leaves_remaining_work [OF c todo d' dist k committed]
  show ?thesis by (simp add: numeral_2_eq_2)
qed

section \<open>What the classifier accepts\<close>

lemma analyze_item_failure:
  assumes "analyzeJobSuitability env i (snd f) resume = Inl e"
  shows "analyze_item env resume i f s
       = s\<lparr>submitted := submitted s @ [fst f], errorCount := errorCount s + 1\<rparr>"
  using assms by (simp add: analyze_item_def Let_def)

lemma analyze_item_success:
  assumes "analyzeJobSuitability env i (snd f) resume = Inr r" "suitability_status r \<noteq> None"
  shows "analyze_item env resume i f s
       = write_results
           (cache_set (cache s) (fst f)
              \<lparr>jobFile = fst f, jobId = fst (getLinkedInUrl (fst f)),
               linkedinUrl = snd (getLinkedInUrl (fst f)), analyzedAt = item_time env i,
               result = r\<rparr>)
           (s\<lparr>submitted := submitted s @ [fst f],
              cache := cache_set (cache s) (fst f)
                \<lparr>jobFile = fst f, jobId = fst (getLinkedInUrl (fst f)),
                 linkedinUrl = snd (getLinkedInUrl (fst f)), analyzedAt = item_time env i,
                 result = r\<rparr>,
              successCount := successCount s + 1\<rparr>)"
  using assms by (auto simp: analyze_item_def Let_def)

text \<open>
  C1, as the claim states it, fails: a payload with status \<open>suitable\<close> and score 11 is
  not rejected. The item counts as a success, no error is counted, and the results
  file receives an entry for the record with the score 11.
\<close>

theorem score_11_accepted:
  "errorCount (analyze_item (sample_env [Payload (sample_result ''suitable'' 11)]) ''resume'' 0
      (''1.txt'', ''one'') (initial_state [] no_files)) = 0
   \<and> successCount (analyze_item (sample_env [Payload (sample_result ''suitable'' 11)]) ''resume'' 0
      (''1.txt'', ''one'') (initial_state [] no_files)) = 1
   \<and> results_file (files (analyze_item (sample_env [Payload (sample_result ''suitable'' 11)])
      ''resume'' 0 (''1.txt'', ''one'') (initial_state [] no_files)))
     = Some [\<lparr>jobFile = ''1.txt'', jobId = ''1'',
              linkedinUrl = ''https://www.linkedin.com/jobs/collections/recommended/?currentJobId=1'',
              analyzedAt = ''T'', result = sample_result ''suitable'' 11\<rparr>]"
  by (simp add: analyze_item_def analyzeJobSuitability_def sample_env_def scripted_def
      sample_result_def write_results_def initial_state_def cache_set_def saveAnalysisCache_def
      array_sort_def Object_values_def getLinkedInUrl_def basename_ext_def endsWith_def
      no_files_def Let_def)

text \<open>
  C1, amended. The classifier validates nothing and clamps nothing. When the service
  call fails or the response is not parseable JSON, the item is a counted failure that
  leaves the cache and every file as they were, so no entry is created or overwritten.
  A parsed payload that carries a status is accepted as it is, whatever its score
  (11, -1, or none): the cache entry of the record holds the payload unchanged, the
  results file is rewritten from that cache at once, and a success is counted.
\<close>

theorem classifier_accepts_unvalidated:
  "(generateContent env i (request_text env (snd f) resume) \<in> {ServiceFailure, Unparseable}
      \<longrightarrow> cache (analyze_item env resume i f s) = cache s
        \<and> files (analyze_item env resume i f s) = files s
        \<and> errorCount (analyze_item env resume i f s) = errorCount s + 1
        \<and> successCount (analyze_item env resume i f s) = successCount s)
   \<and> (generateContent env i (request_text env (snd f) resume) = Payload r
        \<and> suitability_status r \<noteq> None
      \<longrightarrow> (\<exists>e. cache_get (cache (analyze_item env resume i f s)) (fst f) = Some e
              \<and> jobFile e = fst f \<and> result e = r)
        \<and> results_file (files (analyze_item env resume i f s))
            = Some (saveAnalysisCache (cache (analyze_item env resume i f s)))
        \<and> errorCount (analyze_item env resume i f s) = errorCount s
        \<and> successCount (analyze_item env resume i f s) = successCount s + 1)"
proof (intro conjI impI)
  assume "generateContent env i (request_text env (snd f) resume) \<in> {ServiceFailure, Unparseable}"
  then obtain e where e: "analyzeJobSuitability env i (snd f) resume = Inl e"
    by (auto simp: analyzeJobSuitability_def)
  show "cache (analyze_item env resume i f s) = cache s"
    and "files (analyze_item env resume i f s) = files s"
    and "errorCount (analyze_item env resume i f s) = errorCount s + 1"
    and "successCount (analyze_item env resume i f s) = successCount s"
    by (simp_all add: analyze_item_failure [OF e])
next
  assume a: "generateContent env i (request_text env (snd f) resume) = Payload r
               \<and> suitability_status r \<noteq> None"
  then have r: "analyzeJobSuitability env i (snd f) resume = Inr r" and st: "suitability_status r \<noteq> None"
    by (simp_all add: analyzeJobSuitability_def)
  from analyze_item_saves [OF r st, of s]
  show "\<exists>e. cache_get (cache (analyze_item env resume i f s)) (fst f) = Some e
              \<and> jobFile e = fst f \<and> result e = r"
    and "results_file (files (analyze_item env resume i f s))
            = Some (saveAnalysisCache (cache (analyze_item env resume i f s)))"
    by simp_all
  show "errorCount (analyze_item env resume i f s) = errorCount s"
    and "successCount (analyze_item env resume i f s) = successCount s + 1"
    by (simp_all add: analyze_item_success [OF r st] write_results_def)
qed

theorem classifier_accepts_unvalidated_witness:
  "match_score (result (the (cache_get (cache (analyze_item
       (sample_env [Payload (sample_result ''not_suitable'' (- 1))]) ''resume'' 0
       (''1.txt'', ''one'') (initial_state [] no_files))) ''1.txt''))) = Some (- 1)
   \<and> successCount (analyze_item
       (sample_env [Payload (sample_result ''not_suitable'' (- 1))]) ''resume'' 0
       (''1.txt'', ''one'') (initial_state [] no_files)) = 1
   \<and> files (analyze_item (sample_env [Unparseable]) ''resume'' 0
       (''1.txt'', ''one'') (initial_state [] no_files)) = no_files
   \<and> errorCount (analyze_item (sample_env [Unparseable]) ''resume'' 0
       (''1.txt'', ''one'') (initial_state [] no_files)) = 1"
proof -
  let ?r = "sample_result ''not_suitable'' (- 1)"
  let ?f = "(''1.txt'', ''one'')"
  let ?s = "initial_state [] no_files"
  have good: "generateContent (sample_env [Payload ?r]) 0
                (request_text (sample_env [Payload ?r]) (snd ?f) ''resume'') = Payload ?r
              \<and> suitability_status ?r \<noteq> None"
    by (simp add: sample_env_def scripted_def sample_result_def)
  have bad: "generateContent (sample_env [Unparseable]) 0
                (request_text (sample_env [Unparseable]) (snd ?f) ''resume'')
              \<in> {ServiceFailure, Unparseable}"
    by (simp add: sample_env_def scripted_def)
  from classifier_accepts_unvalidated [of "sample_env [Payload ?r]" 0 ?f "''resume''" ?s ?r] good
  have 1: "\<exists>e. cache_get (cache (analyze_item (sample_env [Payload ?r]) ''resume'' 0 ?f ?s)) (fst ?f)
              = Some e \<and> jobFile e = fst ?f \<and> result e = ?r"
    and 2: "successCount (analyze_item (sample_env [Payload ?r]) ''resume'' 0 ?f ?s)
              = successCount ?s + 1"
    by blast+
  from classifier_accepts_unvalidated [of "sample_env [Unparseable]" 0 ?f "''resume''" ?s ?r] bad
  have 3: "files (analyze_item (sample_env [Unparseable]) ''resume'' 0 ?f ?s) = files ?s"
    and 4: "errorCount (analyze_item (sample_env [Unparseable]) ''resume'' 0 ?f ?s)
              = errorCount ?s + 1"
    by blast+
  from 1 2 3 4 show ?thesis
    by (auto simp: initial_state_def sample_result_def)
qed

text \<open>
  A payload without a status: the log line throws after the cache was assigned, the
  item is counted as an error and the save of the iteration is skipped, but the entry
  stays in the cache and the save at the end of \<open>run\<close> writes it to the results file.
\<close>

lemma missing_status_entry_persisted:
  "map_sum id (\<lambda>s. (errorCount s, successCount s, map_option (map jobFile) (results_file (files s))))
     (run (sample_env [Payload ((sample_result [] 5)\<lparr>suitability_status := None\<rparr>)])
        no_files (Some ''resume'') [(''1.txt'', ''one'')])
   = Inr (1, 0, Some [''1.txt''])"
  by (simp add: run_def readResume_def trim_def is_space_def loadAnalysisCache_def no_files_def
      getJobPostingFiles_def jobsToAnalyze_def endsWith_def cache_get_def initial_state_def
      analyze_item_def analyzeJobSuitability_def sample_env_def scripted_def sample_result_def
      write_results_def cache_set_def saveAnalysisCache_def array_sort_def Object_values_def
      Let_def)

section \<open>The gaps of an accepted result\<close>

text \<open>
  C7, as the claim states it, fails: a payload with six gaps is accepted, and the entry
  written to the results file carries all six.
\<close>

theorem six_gaps_accepted:
  "results_file (files (analyze_item
        (sample_env [Payload ((sample_result ''suitable'' 7)
            \<lparr>key_gaps := Some [''a'', ''b'', ''c'', ''d'', ''e'', ''f'']\<rparr>)])
        ''resume'' 0 (''1.txt'', ''one'') (initial_state [] no_files)))
   = Some [\<lparr>jobFile = ''1.txt'', jobId = ''1'',
            linkedinUrl = ''https://www.linkedin.com/jobs/collections/recommended/?currentJobId=1'',
            analyzedAt = ''T'',
            result = \<lparr>suitability_status = Some ''suitable'', match_score = Some 7,
                       key_strengths = None,
                       key_gaps = Some [''a'', ''b'', ''c'', ''d'', ''e'', ''f''],
                       reasoning = None\<rparr>\<rparr>]
   \<and> length [''a'', ''b'', ''c'', ''d'', ''e'', ''f''] = 6"
  by (simp add: analyze_item_def analyzeJobSuitability_def sample_env_def scripted_def
      sample_result_def write_results_def initial_state_def cache_set_def saveAnalysisCache_def
      array_sort_def Object_values_def getLinkedInUrl_def basename_ext_def endsWith_def
      no_files_def Let_def)

text \<open>
  C7, amended. No bound on the gaps is enforced (the prompt alone asks the service for
  0 to 5 of them): whenever the service returns a parsed payload with a status, the
  entry written to the results file for the record carries the \<open>key_gaps\<close> of the
  payload exactly as received, a list of any length or none.
\<close>

theorem gaps_stored_as_received:
  assumes "generateContent env i (request_text env (snd f) resume) = Payload r"
    and "suitability_status r \<noteq> None"
  shows "\<exists>snapshot e. results_file (files (analyze_item env resume i f s)) = Some snapshot
           \<and> e \<in> set snapshot \<and> jobFile e = fst f
           \<and> key_gaps (result e) = key_gaps r"
proof -
  have "analyzeJobSuitability env i (snd f) resume = Inr r"
    using assms(1) by (simp add: analyzeJobSuitability_def)
  from analyze_item_entry_saved [OF this assms(2), of s] show ?thesis
    by auto
qed

theorem gaps_stored_as_received_witness:
  "\<exists>snapshot e. results_file (files (analyze_item
        (sample_env [Payload ((sample_result ''suitable'' 7)
            \<lparr>key_gaps := Some [''a'', ''b'', ''c'', ''d'', ''e'', ''f'', ''g'']\<rparr>)])
        ''resume'' 0 (''1.txt'', ''one'') (initial_state [] no_files))) = Some snapshot
      \<and> e \<in> set snapshot \<and> jobFile e = ''1.txt''
      \<and> key_gaps (result e) = Some [''a'', ''b'', ''c'', ''d'', ''e'', ''f'', ''g'']"
proof -
  let ?r = "(sample_result ''suitable'' 7)
              \<lparr>key_gaps := Some [''a'', ''b'', ''c'', ''d'', ''e'', ''f'', ''g'']\<rparr>"
  have 1: "generateContent (sample_env [Payload ?r]) 0
             (request_text (sample_env [Payload ?r]) (snd (''1.txt'', ''one'')) ''resume'')
           = Payload ?r"
    by (simp add: sample_env_def scripted_def)
  have 2: "suitability_status ?r \<noteq> None"
    by (simp add: sample_result_def)
  from gaps_stored_as_received [OF 1 2, of "initial_state [] no_files"] show ?thesis
    by simp
qed

section \<open>The summary report\<close>

lemma forEach_append:
  "forEach (\<lambda>item index report. report @ g item index) xs i acc
     = acc @ concat (map (\<lambda>(index, item). g item index) (enumerate i xs))"
  by (induction xs arbitrary: i acc) simp_all

lemma summary_report_closed_form:
  "generateSummaryReport env results
     = summary_head env results
       @ concat (map (\<lambda>(index, item). suitable_entry env item index)
                   (enumerate 0 (filter (has_status ''suitable'') results)))
       @ (if filter (has_status ''maybe_suitable'') results = [] then []
          else maybe_head
               @ concat (map (\<lambda>(index, item). maybe_entry env item index)
                           (enumerate 0 (take 20 (filter (has_status ''maybe_suitable'') results)))))"
  by (simp add: generateSummaryReport_def Let_def forEach_append)

lemma summary_report_beyond_20:
  assumes "20 \<le> length (filter (has_status ''maybe_suitable'') results)"
    and "\<forall>r\<in>set extra. has_status ''maybe_suitable'' r"
  shows "drop (length (summary_head env (results @ extra)))
           (generateSummaryReport env (results @ extra))
       = drop (length (summary_head env results)) (generateSummaryReport env results)"
proof -
  let ?maybe = "filter (has_status ''maybe_suitable'') results"
  have "\<forall>r\<in>set extra. \<not> has_status ''suitable'' r"
    using assms(2) by (auto simp: has_status_def)
  then have suit: "filter (has_status ''suitable'') (results @ extra)
                 = filter (has_status ''suitable'') results"
    by simp
  have first20: "take 20 (filter (has_status ''maybe_suitable'') (results @ extra)) = take 20 ?maybe"
    using assms(1) by simp
  have ne: "?maybe \<noteq> []" "filter (has_status ''maybe_suitable'') (results @ extra) \<noteq> []"
    using assms(1) by auto
  show ?thesis
    unfolding summary_report_closed_form suit first20 using ne by simp
qed

lemma run_empty_work_set:
  assumes "readResume resume_file = Inr resume"
    and "jobsToAnalyze (loadAnalysisCache (results_file d)) (getJobPostingFiles dir) = []"
  shows "run env d resume_file dir
       = Inr ((initial_state (loadAnalysisCache (results_file d)) d)
               \<lparr>files := d\<lparr>summary_file :=
                  Some (generateSummaryReport env
                          (Object_values (loadAnalysisCache (results_file d))))\<rparr>\<rparr>)"
  using assms by (simp add: run_def Let_def initial_state_def)

lemma run_work_set_writes_both:
  assumes "run env d resume_file dir = Inr s"
    and "jobsToAnalyze (loadAnalysisCache (results_file d)) (getJobPostingFiles dir) \<noteq> []"
  shows "summary_file (files s) = Some (generateSummaryReport env (Object_values (cache s)))
       \<and> top_matches_file (files s) = Some (generateTopMatchesReport env (Object_values (cache s)))
       \<and> results_file (files s) = Some (saveAnalysisCache (cache s))"
  using assms
  by (auto simp: run_def Let_def write_results_def split: sum.splits)

text \<open>
  C6. A run whose work set is empty: the results file holds an entry for \<open>1.txt\<close>, the
  only job posting. The run calls the classifier for nothing and writes \<open>summary.txt\<close>
  from the loaded cache, then returns: \<open>top-matches.txt\<close> is not written (here it does
  not exist afterwards), although a run with a non-empty work set writes both reports.
\<close>

theorem empty_work_set_writes_summary_only:
  "run (sample_env [])
     (no_files\<lparr>results_file := Some [sample_record ''1.txt'' ''suitable'' 9]\<rparr>)
     (Some ''resume'') [(''1.txt'', ''one'')]
   = Inr \<lparr>cache = [(''1.txt'', sample_record ''1.txt'' ''suitable'' 9)],
          files = \<lparr>results_file = Some [sample_record ''1.txt'' ''suitable'' 9],
                   summary_file = Some (generateSummaryReport (sample_env [])
                                          [sample_record ''1.txt'' ''suitable'' 9]),
                   top_matches_file = None\<rparr>,
          successCount = 0, errorCount = 0, submitted = []\<rparr>"
proof -
  have 1: "readResume (Some ''resume'') = Inr ''resume''"
    by (simp add: readResume_def trim_def is_space_def)
  have 2: "loadAnalysisCache (Some [sample_record ''1.txt'' ''suitable'' 9])
         = [(''1.txt'', sample_record ''1.txt'' ''suitable'' 9)]"
    by (simp add: loadAnalysisCache_def cache_set_def sample_record_def)
  have 3: "jobsToAnalyze [(''1.txt'', sample_record ''1.txt'' ''suitable'' 9)]
             (getJobPostingFiles [(''1.txt'', ''one'')]) = []"
    by (simp add: jobsToAnalyze_def getJobPostingFiles_def endsWith_def cache_get_def)
  show ?thesis
    using run_empty_work_set [OF 1, of "no_files\<lparr>results_file :=
            Some [sample_record ''1.txt'' ''suitable'' 9]\<rparr>" "[(''1.txt'', ''one'')]"
          "sample_env []"] 2 3
    by (simp add: initial_state_def Object_values_def no_files_def)
qed

section \<open>The element tree as text\<close>

lemma set_trim: "set (trim s) \<subseteq> set s"
proof -
  have "set (trim s) \<subseteq> set (dropWhile is_space s)"
    unfolding trim_def using set_dropWhileD by fastforce
  also have "\<dots> \<subseteq> set s"
    using set_dropWhileD by fastforce
  finally show ?thesis .
qed

lemma trim_blank: "\<forall>c\<in>set s. is_space c \<Longrightarrow> trim s = []"
proof -
  assume "\<forall>c\<in>set s. is_space c"
  then have "dropWhile is_space s = []" by (simp only: dropWhile_eq_Nil_conv)
  then show ?thesis by (simp only: trim_def rev.simps dropWhile.simps)
qed

lemma trim_Nil_blank: "trim s = [] \<Longrightarrow> \<forall>c\<in>set s. is_space c"
proof -
  assume "trim s = []"
  then have "\<forall>c\<in>set (rev (dropWhile is_space s)). is_space c"
    by (simp add: trim_def)
  then have "dropWhile is_space s = []"
    using hd_dropWhile [of is_space s] by (cases "dropWhile is_space s") auto
  then show ?thesis by simp
qed

lemma trim_idem: "trim (trim s) = trim s"
proof -
  let ?t = "dropWhile is_space s"
  let ?u = "rev (dropWhile is_space (rev ?t))"
  have "?u @ rev (takeWhile is_space (rev ?t))
      = rev (takeWhile is_space (rev ?t) @ dropWhile is_space (rev ?t))"
    by (simp only: rev_append)
  also have "\<dots> = ?t"
    by (simp only: takeWhile_dropWhile_id rev_rev_ident)
  finally have split: "?t = ?u @ rev (takeWhile is_space (rev ?t))"
    by simp
  have stable: "dropWhile is_space ?u = ?u"
  proof (cases ?u)
    case Nil
    show ?thesis by (simp only: Nil dropWhile.simps)
  next
    case (Cons a w)
    with split have "hd ?t = a" and "?t \<noteq> []"
      by (metis append_Cons list.sel(1), metis append_is_Nil_conv list.distinct(1))
    then have "\<not> is_space a"
      using hd_dropWhile [of is_space s] by auto
    then have "dropWhile is_space (a # w) = a # w" by simp
    with Cons show ?thesis by (simp only:)
  qed
  show ?thesis
    by (simp only: trim_def stable rev_rev_ident dropWhile_idem)
qed

lemma split_on_not_Nil: "split_on c s \<noteq> []"
  by (induction s) (auto split: list.splits)

lemma set_split_on: "l \<in> set (split_on c s) \<Longrightarrow> set l \<subseteq> set s - {c}"
proof (induction s arbitrary: l)
  case Nil
  then show ?case by simp
next
  case (Cons x xs)
  show ?case
  proof (cases "x = c")
    case True
    with Cons show ?thesis by auto
  next
    case False
    obtain l0 ls where sp: "split_on c xs = l0 # ls"
      using split_on_not_Nil [of c xs] by (cases "split_on c xs") auto
    with False Cons.prems have "l = x # l0 \<or> l \<in> set ls" by auto
    moreover have "set l0 \<subseteq> set xs - {c}" and "\<forall>l'\<in>set ls. set l' \<subseteq> set xs - {c}"
      using Cons.IH sp by auto
    ultimately show ?thesis using False by auto
  qed
qed

lemma clean_lines_line:
  assumes "line \<in> set (clean_lines s)"
  shows "line \<noteq> [] \<and> trim line = line \<and> CHR 0x0A \<notin> set line"
proof -
  from assms obtain l where l: "l \<in> set (split_on (CHR 0x0A) s)" and line: "line = trim l"
    and ne: "line \<noteq> []"
    by (auto simp: clean_lines_def)
  have "CHR 0x0A \<notin> set l"
    using set_split_on [OF l] by auto
  then have "CHR 0x0A \<notin> set line"
    using set_trim [of l] line by auto
  with ne line show ?thesis by (simp add: trim_idem)
qed

lemma clean_lines_blank:
  assumes "\<forall>c\<in>set s. is_space c"
  shows "clean_lines s = []"
proof -
  have "\<forall>l\<in>set (split_on (CHR 0x0A) s). trim l = []"
  proof
    fix l assume "l \<in> set (split_on (CHR 0x0A) s)"
    then have "set l \<subseteq> set s" using set_split_on by fastforce
    with assms show "trim l = []" by (intro trim_blank) auto
  qed
  then show ?thesis
    by (simp add: clean_lines_def filter_empty_conv)
qed

lemma toUpperCase_Nil: "toUpperCase [] = []"
  by (simp add: toUpperCase_def)

lemma element_text_blank:
  assumes "\<forall>c\<in>set inner. is_space c" "tagName \<noteq> ''li''"
  shows "\<forall>c\<in>set (element_text tagName inner). is_space c"
proof -
  have tr: "trim inner = []"
    using assms(1) by (rule trim_blank)
  have sp: "is_space (CHR 0x0A)" "is_space CHR '' ''"
    by (simp_all add: is_space_def)
  show ?thesis
    using assms tr sp by (simp add: element_text_def nl_def toUpperCase_Nil)
qed

lemma no_text_blank:
  "no_text n \<Longrightarrow> \<forall>c\<in>set (node_text n). is_space c"
  "list_all no_text ns \<Longrightarrow> \<forall>c\<in>set (childNodes_text ns). is_space c"
proof (induction n and ns rule: node_text_childNodes_text.induct)
  case (1 s)
  then show ?case by simp
next
  case 2
  then show ?case by simp
next
  case (3 tag kids)
  then have "\<forall>c\<in>set (childNodes_text kids). is_space c" and "toLowerCase tag \<noteq> ''li''"
    by simp_all
  then have "\<forall>c\<in>set (element_text (toLowerCase tag) (childNodes_text kids)). is_space c"
    by (rule element_text_blank)
  then show ?case by simp
next
  case 4
  then show ?case by simp
next
  case (5 n ns)
  then show ?case by auto
qed

lemma jobDetailsText_no_text:
  assumes "no_text el"
  shows "jobDetailsText el = []"
proof -
  have "\<forall>c\<in>set (htmlToFormattedText el). is_space c"
  proof (cases el)
    case (ElementNode tag kids)
    with assms have "list_all no_text kids" by simp
    then show ?thesis
      using no_text_blank(2) ElementNode by (simp add: htmlToFormattedText_def)
  qed (simp_all add: htmlToFormattedText_def)
  then have "clean_lines (htmlToFormattedText el) = []"
    by (rule clean_lines_blank)
  then show ?thesis by (simp add: jobDetailsText_def)
qed

lemma element_text_inline:
  "element_text ''strong'' inner = trim inner @ '' ''"
  "element_text ''b'' inner = trim inner @ '' ''"
  "element_text ''em'' inner = trim inner @ '' ''"
  "element_text ''i'' inner = trim inner @ '' ''"
  "element_text ''a'' inner = inner"
  "element_text ''span'' inner = inner"
  by (simp_all add: element_text_def is_heading_def)

lemma inline_no_line_feed:
  assumes "e \<in> {''strong'', ''b'', ''em'', ''i'', ''a'', ''span''}" "CHR 0x0A \<notin> set inner"
  shows "CHR 0x0A \<notin> set (element_text e inner)"
proof -
  have tr: "CHR 0x0A \<notin> set (trim inner)"
    using assms(2) set_trim [of inner] by auto
  from assms(1) have "e = ''strong'' \<or> e = ''b'' \<or> e = ''em'' \<or> e = ''i'' \<or> e = ''a'' \<or> e = ''span''"
    by blast
  then show ?thesis
    using tr assms(2) by (elim disjE) (simp_all only: element_text_inline set_append, simp_all)
qed

text \<open>
  C9, as the claim states it, fails in its last part: a tree without text gives the
  empty output, not a non-empty one. Nor does a heading stay padded with blank lines:
  the clean-up drops every empty line.
\<close>

theorem no_text_gives_empty_output:
  "jobDetailsText (ElementNode ''DIV'' [ElementNode ''P'' [TextNode ''  ''], ElementNode ''H2'' []]) = []
   \<and> jobDetailsText (ElementNode ''DIV'' [ElementNode ''P'' [TextNode ''a''],
        ElementNode ''H2'' [TextNode ''t''], ElementNode ''P'' [TextNode ''b'']])
     = [CHR ''a'', CHR 0x0A, CHR ''T'', CHR 0x0A, CHR ''b'']"
  by code_simp

text \<open>
  C9, amended. The conversion is a function of the tree alone. In the text that
  \<open>htmlToFormattedText\<close> builds, each child element contributes what \<open>element_text\<close>
  gives for its lower-cased tag and the text of its own children: a paragraph starts a
  new line and ends it; a div starts a new line when its trimmed content is not empty
  and contributes nothing otherwise; a heading is written upper-cased after an empty
  line and followed by a line feed; a list item starts a new line with the marker and a
  space; emphasis (\<open>strong\<close>, \<open>b\<close>, \<open>em\<close>, \<open>i\<close>) contributes its trimmed content and a
  space, a link or span its content unchanged, and none of these adds a line feed that
  its content does not hold. The clean-up then trims every line and drops the empty
  ones: every line of the result is non-empty, trimmed and free of line feeds, and a
  tree without text and without list items gives the empty output.
\<close>

theorem tree_text_rendering:
  "childNodes_text (ElementNode tag kids # ns)
     = element_text (toLowerCase tag) (childNodes_text kids) @ childNodes_text ns
   \<and> element_text ''p'' inner = nl @ trim inner @ nl
   \<and> element_text ''div'' inner = (if trim inner = [] then [] else nl @ trim inner)
   \<and> (is_heading h \<longrightarrow> element_text h inner = nl @ nl @ toUpperCase (trim inner) @ nl)
   \<and> element_text ''li'' inner = nl @ bullet @ '' '' @ trim inner
   \<and> (e \<in> {''strong'', ''b'', ''em'', ''i''} \<longrightarrow> element_text e inner = trim inner @ '' '')
   \<and> (e \<in> {''a'', ''span''} \<longrightarrow> element_text e inner = inner)
   \<and> (e \<in> {''strong'', ''b'', ''em'', ''i'', ''a'', ''span''} \<longrightarrow> CHR 0x0A \<notin> set inner
        \<longrightarrow> CHR 0x0A \<notin> set (element_text e inner))
   \<and> (\<forall>line\<in>set (clean_lines (htmlToFormattedText el)).
         line \<noteq> [] \<and> trim line = line \<and> CHR 0x0A \<notin> set line)
   \<and> (no_text el \<longrightarrow> jobDetailsText el = [])"
proof (intro conjI impI ballI)
  show "childNodes_text (ElementNode tag kids # ns)
     = element_text (toLowerCase tag) (childNodes_text kids) @ childNodes_text ns"
    by simp
  show "element_text ''p'' inner = nl @ trim inner @ nl"
    and "element_text ''div'' inner = (if trim inner = [] then [] else nl @ trim inner)"
    and "element_text ''li'' inner = nl @ bullet @ '' '' @ trim inner"
    by (simp_all add: element_text_def is_heading_def)
  show "element_text h inner = nl @ nl @ toUpperCase (trim inner) @ nl" if "is_heading h"
  proof -
    from that have "h \<noteq> ''br''" "h \<noteq> ''p''" "h \<noteq> ''div''"
      by (auto simp: is_heading_def)
    with that show ?thesis by (simp add: element_text_def)
  qed
  show "element_text e inner = trim inner @ '' ''" if "e \<in> {''strong'', ''b'', ''em'', ''i''}"
  proof -
    from that have "e = ''strong'' \<or> e = ''b'' \<or> e = ''em'' \<or> e = ''i''" by blast
    then show ?thesis by (elim disjE) (simp_all only: element_text_inline)
  qed
  show "element_text e inner = inner" if "e \<in> {''a'', ''span''}"
  proof -
    from that have "e = ''a'' \<or> e = ''span''" by blast
    then show ?thesis by (elim disjE) (simp_all only: element_text_inline)
  qed
  show "CHR 0x0A \<notin> set (element_text e inner)"
    if "e \<in> {''strong'', ''b'', ''em'', ''i'', ''a'', ''span''}" "CHR 0x0A \<notin> set inner"
    using that by (rule inline_no_line_feed)
  show "line \<noteq> []" "trim line = line" "CHR 0x0A \<notin> set line"
    if "line \<in> set (clean_lines (htmlToFormattedText el))" for line
    using clean_lines_line [OF that] by simp_all
  show "jobDetailsText el = []" if "no_text el"
    using that by (rule jobDetailsText_no_text)
qed

theorem tree_text_rendering_witness:
  "element_text ''h3'' ''about us '' = nl @ nl @ ''ABOUT US'' @ nl
   \<and> element_text ''em'' ''x '' = ''x ''
   \<and> CHR 0x0A \<notin> set (element_text ''em'' ''x '')
   \<and> jobDetailsText (ElementNode ''div'' [OtherNode, ElementNode ''span'' [TextNode '' '']]) = []
   \<and> clean_lines (htmlToFormattedText
         (ElementNode ''div'' [ElementNode ''h2'' [TextNode ''hi''], ElementNode ''li'' [TextNode ''x'']]))
       = [''HI'', bullet @ '' x'']
   \<and> trim ''HI'' = ''HI''"
proof -
  let ?quiet = "ElementNode ''div'' [OtherNode, ElementNode ''span'' [TextNode '' '']]"
  let ?loud = "ElementNode ''div'' [ElementNode ''h2'' [TextNode ''hi''], ElementNode ''li'' [TextNode ''x'']]"
  have h: "is_heading ''h3''"
    by (simp add: is_heading_def)
  have e: "''em'' \<in> {''strong'', ''b'', ''em'', ''i''}"
    and e': "''em'' \<in> {''strong'', ''b'', ''em'', ''i'', ''a'', ''span''}"
    by simp_all
  have x: "CHR 0x0A \<notin> set ''x ''"
    by simp
  have quiet: "no_text ?quiet"
    by code_simp
  have loud: "clean_lines (htmlToFormattedText ?loud) = [''HI'', bullet @ '' x'']"
    by code_simp
  have up: "toUpperCase (trim ''about us '') = ''ABOUT US''" and tx: "trim ''x '' = ''x''"
    by code_simp+
  note quiet_case = tree_text_rendering [where tag = "''div''" and kids = "[]" and ns = "[]"
      and h = "''h3''" and e = "''em''" and inner = "''about us ''" and el = ?quiet]
  note loud_case = tree_text_rendering [where tag = "''div''" and kids = "[]" and ns = "[]"
      and h = "''h3''" and e = "''em''" and inner = "''x ''" and el = ?loud]
  from quiet_case h
  have "element_text ''h3'' ''about us '' = nl @ nl @ toUpperCase (trim ''about us '') @ nl"
    by blast
  then have 1: "element_text ''h3'' ''about us '' = nl @ nl @ ''ABOUT US'' @ nl"
    by (simp only: up)
  from quiet_case quiet have 2: "jobDetailsText ?quiet = []"
    by blast
  from loud_case e have "element_text ''em'' ''x '' = trim ''x '' @ '' ''"
    by blast
  then have 3: "element_text ''em'' ''x '' = ''x ''"
    by (simp only: tx append.simps)
  from loud_case e' x have 4: "CHR 0x0A \<notin> set (element_text ''em'' ''x '')"
    by blast
  from loud_case
  have 5: "\<forall>line\<in>set (clean_lines (htmlToFormattedText ?loud)).
              line \<noteq> [] \<and> trim line = line \<and> CHR 0x0A \<notin> set line"
    by blast
  from 5 have 6: "trim ''HI'' = ''HI''"
    unfolding loud by simp
  from 1 2 3 4 6 loud show ?thesis
    by (simp only: simp_thms)
qed

section \<open>The files of the record store\<close>

lemma set_update_subset: "set (AList.update k v al) \<subseteq> insert (k, v) (set al)"
  by (induction al) auto

lemma update_holds: "(k, v) \<in> set (AList.update k v al)"
  by (induction al) auto

lemma scrape_card_store:
  "store (scrape_card existing stamp c st) = store st
   \<or> (\<not> item_fails c \<and> card_jobId stamp c \<notin> set existing
      \<and> (\<exists>el. job_details c = Some el
            \<and> store (scrape_card existing stamp c st)
                = AList.update (card_jobId stamp c @ ''.txt'')
                    (fileContent (text_or_NA (company_element c))
                       (text_or_NA (location_element c)) (jobDetailsText el))
                    (store st)))"
  by (simp add: scrape_card_def Let_def split: option.splits)

lemma scrape_card_written:
  assumes "\<not> item_fails c" "card_jobId stamp c \<notin> set existing" "job_details c = Some el"
  shows "store (scrape_card existing stamp c st)
       = AList.update (card_jobId stamp c @ ''.txt'')
           (fileContent (text_or_NA (company_element c)) (text_or_NA (location_element c))
              (jobDetailsText el))
           (store st)"
  using assms by (simp add: scrape_card_def Let_def)

text \<open>The files of the store are those it started with or files written for a card
  of the cards \<open>C\<close>, named and filled as \<open>scrape_card\<close> does.\<close>

lemma scrape_card_files:
  assumes "nc \<in> set (store (scrape_card existing stamp c st))" "c \<in> C"
    and "nc \<in> set (store st) \<Longrightarrow> R"
    and "\<And>c stamp el. c \<in> C \<Longrightarrow> job_details c = Some el
           \<Longrightarrow> nc = (card_jobId stamp c @ ''.txt'',
                     fileContent (text_or_NA (company_element c))
                       (text_or_NA (location_element c)) (jobDetailsText el)) \<Longrightarrow> R"
  shows R
proof -
  from scrape_card_store [of existing stamp c st] show R
  proof
    assume "store (scrape_card existing stamp c st) = store st"
    with assms(1,3) show R by simp
  next
    assume "\<not> item_fails c \<and> card_jobId stamp c \<notin> set existing
      \<and> (\<exists>el. job_details c = Some el
            \<and> store (scrape_card existing stamp c st)
                = AList.update (card_jobId stamp c @ ''.txt'')
                    (fileContent (text_or_NA (company_element c))
                       (text_or_NA (location_element c)) (jobDetailsText el))
                    (store st))"
    then obtain el where el: "job_details c = Some el"
      and st': "store (scrape_card existing stamp c st)
                = AList.update (card_jobId stamp c @ ''.txt'')
                    (fileContent (text_or_NA (company_element c))
                       (text_or_NA (location_element c)) (jobDetailsText el))
                    (store st)"
      by blast
    from assms(1) st' set_update_subset
    have "nc = (card_jobId stamp c @ ''.txt'',
                fileContent (text_or_NA (company_element c))
                  (text_or_NA (location_element c)) (jobDetailsText el))
          \<or> nc \<in> set (store st)"
      by fastforce
    with assms(2,3,4) el show R by blast
  qed
qed

lemma scrape_card_inv:
  assumes "set (store st) \<subseteq> D \<union> written_for C" "c \<in> C"
  shows "set (store (scrape_card existing stamp c st)) \<subseteq> D \<union> written_for C"
proof
  fix nc assume "nc \<in> set (store (scrape_card existing stamp c st))"
  then show "nc \<in> D \<union> written_for C"
  proof (rule scrape_card_files [OF _ assms(2)])
    assume "nc \<in> set (store st)"
    with assms(1) show ?thesis by blast
  next
    fix c' stamp' el
    assume "c' \<in> C" "job_details c' = Some el"
      "nc = (card_jobId stamp' c' @ ''.txt'',
             fileContent (text_or_NA (company_element c')) (text_or_NA (location_element c'))
               (jobDetailsText el))"
    then have "nc \<in> written_for C"
      unfolding written_for_def by blast
    then show ?thesis by simp
  qed
qed

lemma scrape_cards_inv:
  "set (store st) \<subseteq> D \<union> written_for C \<Longrightarrow> set cs \<subseteq> C
   \<Longrightarrow> set (store (scrape_cards existing stamps i cs st)) \<subseteq> D \<union> written_for C"
proof (induction cs arbitrary: i st)
  case Nil
  then show ?case by simp
next
  case (Cons c cs)
  have "set (store (scrape_card existing (stamps i) c st)) \<subseteq> D \<union> written_for C"
    using Cons.prems by (intro scrape_card_inv) auto
  then show ?case
    using Cons.IH [of "scrape_card existing (stamps i) c st" "Suc i"] Cons.prems(2) by simp
qed

lemma scrape_pages_inv:
  "set (store st) \<subseteq> D \<union> written_for C \<Longrightarrow> set (concat pages) \<subseteq> C
   \<Longrightarrow> set (store (scrape_pages existing stamps p pages st)) \<subseteq> D \<union> written_for C"
proof (induction pages arbitrary: p st)
  case Nil
  then show ?case by simp
next
  case (Cons cards rest)
  have "set (store (scrape_cards existing (stamps p) 0 cards st)) \<subseteq> D \<union> written_for C"
    using Cons.prems by (intro scrape_cards_inv) auto
  then show ?case
    using Cons.IH [of "scrape_cards existing (stamps p) 0 cards st" "Suc p"] Cons.prems(2) by simp
qed

lemma scrapeLinkedInJobs_files:
  "set (store (scrapeLinkedInJobs stringify stamps dir pages))
     \<subseteq> insert (''_summary.json'', stringify (jobs (scrapeLinkedInJobs stringify stamps dir pages)))
         (set dir \<union> written_for (set (concat pages)))"
proof -
  let ?st = "scrape_pages (existingJobIds dir) stamps 0 pages
               \<lparr>store = dir, jobs = [], skippedCount = 0\<rparr>"
  have "set (store ?st) \<subseteq> set dir \<union> written_for (set (concat pages))"
    by (intro scrape_pages_inv) simp_all
  moreover have "set (store (write_summary stringify ?st))
      \<subseteq> insert (''_summary.json'', stringify (jobs ?st)) (set (store ?st))"
    by (simp add: write_summary_def set_update_subset)
  moreover have "jobs (write_summary stringify ?st) = jobs ?st"
    by (simp add: write_summary_def)
  ultimately show ?thesis
    unfolding scrapeLinkedInJobs_def by auto
qed

text \<open>
  C8. A card that is persisted (no browser call of the item fails, its identifier is not
  among the existing ones, its details element is there) leaves in the store, under the
  name \<open><id>.txt\<close>, the content \<open>Company: <company>\<close>, a line feed, \<open>Location: <location>\<close>,
  two line feeds (the end of the header and an empty line), and the trimmed text of the
  details element. And every file that a run of the scraper leaves in the directory was
  there at the start, or is the \<open>_summary.json\<close> of the run, or has such a name and
  content, for a card of the listing and its details element.
\<close>

theorem record_store_file_format:
  "(\<not> item_fails c \<and> card_jobId stamp c \<notin> set existing \<and> job_details c = Some el
      \<longrightarrow> map_of (store (scrape_card existing stamp c st)) (card_jobId stamp c @ ''.txt'')
          = Some (''Company: '' @ text_or_NA (company_element c) @ [CHR 0x0A]
                  @ ''Location: '' @ text_or_NA (location_element c) @ [CHR 0x0A, CHR 0x0A]
                  @ trim (jobDetailsText el)))
   \<and> (\<forall>name content.
         (name, content) \<in> set (store (scrapeLinkedInJobs stringify stamps dir pages))
         \<longrightarrow> (name, content) \<in> set dir
           \<or> (name = ''_summary.json''
               \<and> content = stringify (jobs (scrapeLinkedInJobs stringify stamps dir pages)))
           \<or> (\<exists>c stamp el. c \<in> set (concat pages) \<and> job_details c = Some el
                 \<and> name = card_jobId stamp c @ ''.txt''
                 \<and> content = ''Company: '' @ text_or_NA (company_element c) @ [CHR 0x0A]
                     @ ''Location: '' @ text_or_NA (location_element c) @ [CHR 0x0A, CHR 0x0A]
                     @ trim (jobDetailsText el)))"
proof (intro conjI impI allI)
  assume a: "\<not> item_fails c \<and> card_jobId stamp c \<notin> set existing \<and> job_details c = Some el"
  then have "store (scrape_card existing stamp c st)
       = AList.update (card_jobId stamp c @ ''.txt'')
           (fileContent (text_or_NA (company_element c)) (text_or_NA (location_element c))
              (jobDetailsText el))
           (store st)"
    by (intro scrape_card_written) simp_all
  then show "map_of (store (scrape_card existing stamp c st)) (card_jobId stamp c @ ''.txt'')
          = Some (''Company: '' @ text_or_NA (company_element c) @ [CHR 0x0A]
                  @ ''Location: '' @ text_or_NA (location_element c) @ [CHR 0x0A, CHR 0x0A]
                  @ trim (jobDetailsText el))"
    by (simp add: update_conv' fileContent_def nl_def)
next
  fix name content
  assume "(name, content) \<in> set (store (scrapeLinkedInJobs stringify stamps dir pages))"
  with scrapeLinkedInJobs_files [of stringify stamps dir pages]
  have "(name, content)
          = (''_summary.json'', stringify (jobs (scrapeLinkedInJobs stringify stamps dir pages)))
      \<or> (name, content) \<in> set dir
      \<or> (name, content) \<in> written_for (set (concat pages))"
    by blast
  then show "(name, content) \<in> set dir
           \<or> (name = ''_summary.json''
               \<and> content = stringify (jobs (scrapeLinkedInJobs stringify stamps dir pages)))
           \<or> (\<exists>c stamp el. c \<in> set (concat pages) \<and> job_details c = Some el
                 \<and> name = card_jobId stamp c @ ''.txt''
                 \<and> content = ''Company: '' @ text_or_NA (company_element c) @ [CHR 0x0A]
                     @ ''Location: '' @ text_or_NA (location_element c) @ [CHR 0x0A, CHR 0x0A]
                     @ trim (jobDetailsText el))"
    unfolding written_for_def fileContent_def nl_def by auto
qed

theorem record_store_file_format_witness:
  "map_of (store (scrape_card [] ''1-a'' sample_card \<lparr>store = [], jobs = [], skippedCount = 0\<rparr>))
     ''123.txt''
   = Some (''Company: Acme'' @ [CHR 0x0A] @ ''Location: Berlin'' @ [CHR 0x0A, CHR 0x0A]
           @ ''Great job'')
   \<and> store (scrapeLinkedInJobs sample_stringify (sample_stamps ''1-a'') [] [[sample_card]])
     = [(''123.txt'', ''Company: Acme'' @ [CHR 0x0A] @ ''Location: Berlin'' @ [CHR 0x0A, CHR 0x0A]
           @ ''Great job''),
        (''_summary.json'', ''[123]'')]"
proof -
  let ?st = "\<lparr>store = [], jobs = [], skippedCount = 0\<rparr>"
  let ?el = "ElementNode ''DIV'' [ElementNode ''P'' [TextNode ''Great job'']]"
  have hyp: "\<not> item_fails sample_card \<and> card_jobId ''1-a'' sample_card \<notin> set []
             \<and> job_details sample_card = Some ?el"
    by (simp add: sample_card_def)
  have vals: "card_jobId ''1-a'' sample_card = ''123''"
    "text_or_NA (company_element sample_card) = ''Acme''"
    "text_or_NA (location_element sample_card) = ''Berlin''"
    "trim (jobDetailsText ?el) = ''Great job''"
    by code_simp+
  have run: "store (scrapeLinkedInJobs sample_stringify (sample_stamps ''1-a'') [] [[sample_card]])
     = [(''123.txt'', ''Company: Acme'' @ [CHR 0x0A] @ ''Location: Berlin'' @ [CHR 0x0A, CHR 0x0A]
           @ ''Great job''),
        (''_summary.json'', ''[123]'')]"
    by code_simp
  from record_store_file_format [of sample_card "''1-a''" "[]" ?el ?st sample_stringify
      "sample_stamps ''1-a''" "[]" "[[sample_card]]"] hyp
  have "map_of (store (scrape_card [] ''1-a'' sample_card ?st)) (card_jobId ''1-a'' sample_card @ ''.txt'')
          = Some (''Company: '' @ text_or_NA (company_element sample_card) @ [CHR 0x0A]
                  @ ''Location: '' @ text_or_NA (location_element sample_card) @ [CHR 0x0A, CHR 0x0A]
                  @ trim (jobDetailsText ?el))"
    by blast
  then have "map_of (store (scrape_card [] ''1-a'' sample_card ?st)) ''123.txt''
          = Some (''Company: Acme'' @ [CHR 0x0A] @ ''Location: Berlin'' @ [CHR 0x0A, CHR 0x0A]
                  @ ''Great job'')"
    by (simp only: vals append.simps)
  with run show ?thesis by (simp only: simp_thms)
qed

section \<open>Scraping the same listing twice\<close>

lemma match_job_view_digits: "match_job_view h = Some m \<Longrightarrow> \<forall>c\<in>set m. is_digit c"
proof (induction h)
  case Nil
  then show ?case by simp
next
  case (Cons x xs)
  then show ?case
    by (auto split: if_splits dest: set_takeWhileD)
qed

lemma replace_first_digits:
  "\<forall>c\<in>set j. is_digit c \<Longrightarrow> replace_first ''.txt'' [] (j @ ''.txt'') = j"
proof (induction j)
  case Nil
  then show ?case by simp
next
  case (Cons x xs)
  then have "x \<noteq> CHR ''.''"
    by (auto simp: is_digit_def)
  with Cons show ?case by simp
qed

lemma endsWith_append: "endsWith (j @ suf) suf"
  by (simp add: endsWith_def)

lemma card_jobId_canonical:
  assumes "has_canonical_link c"
  shows "card_jobId stamp c = card_jobId stamp' c" and "\<forall>ch\<in>set (card_jobId stamp c). is_digit ch"
  using assms match_job_view_digits
  by (auto simp: has_canonical_link_def card_jobId_def split: option.splits)

lemma existing_of_key:
  assumes "j @ ''.txt'' \<in> fst ` set dir" "\<forall>ch\<in>set j. is_digit ch"
  shows "j \<in> set (existingJobIds dir)"
proof -
  have "replace_first ''.txt'' [] (j @ ''.txt'') = j"
    using assms(2) by (rule replace_first_digits)
  moreover have "endsWith (j @ ''.txt'') ''.txt''"
    by (rule endsWith_append)
  ultimately show ?thesis
    using assms(1) unfolding existingJobIds_def by force
qed

lemma existing_mono:
  assumes "fst ` set dir \<subseteq> fst ` set dir'"
  shows "set (existingJobIds dir) \<subseteq> set (existingJobIds dir')"
proof -
  have "{x \<in> fst ` set dir. endsWith x ''.txt''} \<subseteq> {x \<in> fst ` set dir'. endsWith x ''.txt''}"
    using assms by blast
  then have "replace_first ''.txt'' [] ` {x \<in> fst ` set dir. endsWith x ''.txt''}
           \<subseteq> replace_first ''.txt'' [] ` {x \<in> fst ` set dir'. endsWith x ''.txt''}"
    by (rule image_mono)
  then show ?thesis
    by (simp add: existingJobIds_def)
qed

lemma keys_scrape_card:
  "fst ` set (store st) \<subseteq> fst ` set (store (scrape_card existing stamp c st))"
  by (auto simp: scrape_card_def Let_def dom_update split: option.splits)

lemma keys_scrape_cards:
  "fst ` set (store st) \<subseteq> fst ` set (store (scrape_cards existing stamps i cs st))"
proof (induction cs arbitrary: i st)
  case Nil
  then show ?case by simp
next
  case (Cons c cs)
  show ?case
    using keys_scrape_card [of st existing "stamps i" c]
      Cons.IH [of "scrape_card existing (stamps i) c st" "Suc i"]
    by auto
qed

lemma keys_scrape_pages:
  "fst ` set (store st) \<subseteq> fst ` set (store (scrape_pages existing stamps p pages st))"
proof (induction pages arbitrary: p st)
  case Nil
  then show ?case by simp
next
  case (Cons cards rest)
  show ?case
    using keys_scrape_cards [of st existing "stamps p" 0 cards]
      Cons.IH [of "scrape_cards existing (stamps p) 0 cards st" "Suc p"]
    by auto
qed

text \<open>A card that can be persisted has its file in the store once the loop has passed
  it, unless its identifier was among the existing ones.\<close>

lemma scrape_card_key:
  assumes "persistable c" "card_jobId stamp c \<notin> set existing"
  shows "card_jobId stamp c @ ''.txt'' \<in> fst ` set (store (scrape_card existing stamp c st))"
  using assms
  by (auto simp: persistable_def scrape_card_def Let_def dom_update)

lemma scrape_cards_key:
  assumes "c \<in> set cs" "persistable c" "has_canonical_link c" "card_jobId stamp c \<notin> set existing"
  shows "card_jobId stamp c @ ''.txt'' \<in> fst ` set (store (scrape_cards existing stamps i cs st))"
  using assms(1)
proof (induction cs arbitrary: i st)
  case Nil
  then show ?case by simp
next
  case (Cons x xs)
  show ?case
  proof (cases "x = c")
    case True
    have "card_jobId (stamps i) c = card_jobId stamp c"
      using assms(3) by (rule card_jobId_canonical(1))
    then have "card_jobId stamp c @ ''.txt''
               \<in> fst ` set (store (scrape_card existing (stamps i) c st))"
      using scrape_card_key [of c "stamps i" existing st] assms(2,4) by simp
    then show ?thesis
      using keys_scrape_cards [of "scrape_card existing (stamps i) c st" existing stamps "Suc i" xs]
        True
      by auto
  next
    case False
    with Cons.prems have "c \<in> set xs" by simp
    then show ?thesis using Cons.IH by simp
  qed
qed

lemma scrape_pages_key:
  assumes "c \<in> set (concat pages)" "persistable c" "has_canonical_link c"
    "card_jobId stamp c \<notin> set existing"
  shows "card_jobId stamp c @ ''.txt'' \<in> fst ` set (store (scrape_pages existing stamps p pages st))"
  using assms(1)
proof (induction pages arbitrary: p st)
  case Nil
  then show ?case by simp
next
  case (Cons cards rest)
  show ?case
  proof (cases "c \<in> set cards")
    case True
    then have "card_jobId stamp c @ ''.txt''
               \<in> fst ` set (store (scrape_cards existing (stamps p) 0 cards st))"
      using assms(2,3,4) by (rule scrape_cards_key)
    then show ?thesis
      using keys_scrape_pages [of "scrape_cards existing (stamps p) 0 cards st" existing stamps
          "Suc p" rest]
      by auto
  next
    case False
    with Cons.prems have "c \<in> set (concat rest)" by simp
    then show ?thesis using Cons.IH by simp
  qed
qed

text \<open>A pass over cards that all fail, are known, or have no details element writes
  nothing and collects no job.\<close>

lemma scrape_card_idle:
  assumes "item_fails c \<or> card_jobId stamp c \<in> set existing \<or> job_details c = None"
  shows "store (scrape_card existing stamp c st) = store st"
    and "jobs (scrape_card existing stamp c st) = jobs st"
  using assms by (auto simp: scrape_card_def Let_def)

lemma scrape_cards_idle:
  assumes "\<forall>c\<in>set cs. \<forall>stamp. item_fails c \<or> card_jobId stamp c \<in> set existing \<or> job_details c = None"
  shows "store (scrape_cards existing stamps i cs st) = store st
       \<and> jobs (scrape_cards existing stamps i cs st) = jobs st"
  using assms
proof (induction cs arbitrary: i st)
  case Nil
  then show ?case by simp
next
  case (Cons c cs)
  have idle: "item_fails c \<or> card_jobId (stamps i) c \<in> set existing \<or> job_details c = None"
    using Cons.prems by auto
  have "store (scrape_cards existing stamps (Suc i) cs (scrape_card existing (stamps i) c st))
          = store (scrape_card existing (stamps i) c st)
      \<and> jobs (scrape_cards existing stamps (Suc i) cs (scrape_card existing (stamps i) c st))
          = jobs (scrape_card existing (stamps i) c st)"
    using Cons.prems by (intro Cons.IH) simp
  then show ?case
    using scrape_card_idle [OF idle, of st] by simp
qed

lemma scrape_pages_idle:
  assumes "\<forall>c\<in>set (concat pages). \<forall>stamp.
             item_fails c \<or> card_jobId stamp c \<in> set existing \<or> job_details c = None"
  shows "store (scrape_pages existing stamps p pages st) = store st
       \<and> jobs (scrape_pages existing stamps p pages st) = jobs st"
  using assms
proof (induction pages arbitrary: p st)
  case Nil
  then show ?case by simp
next
  case (Cons cards rest)
  have "store (scrape_cards existing (stamps p) 0 cards st) = store st
      \<and> jobs (scrape_cards existing (stamps p) 0 cards st) = jobs st"
    using Cons.prems by (intro scrape_cards_idle) simp
  moreover have "store (scrape_pages existing stamps (Suc p) rest
                          (scrape_cards existing (stamps p) 0 cards st))
          = store (scrape_cards existing (stamps p) 0 cards st)
      \<and> jobs (scrape_pages existing stamps (Suc p) rest
                          (scrape_cards existing (stamps p) 0 cards st))
          = jobs (scrape_cards existing (stamps p) 0 cards st)"
    using Cons.prems by (intro Cons.IH) simp
  ultimately show ?case by simp
qed

lemma keys_write_summary:
  "fst ` set (store st) \<subseteq> fst ` set (store (write_summary stringify st))"
  by (auto simp: write_summary_def dom_update)

lemma card_jobId_anchor: "anchor c1 = anchor c2 \<Longrightarrow> card_jobId stamp c1 = card_jobId stamp c2"
  by (simp add: card_jobId_def)

lemma has_canonical_link_anchor:
  "anchor c1 = anchor c2 \<Longrightarrow> has_canonical_link c1 = has_canonical_link c2"
  by (simp add: has_canonical_link_def)

lemma first_run_makes_known:
  assumes "c \<in> set (concat pages)" "persistable c" "has_canonical_link c"
  shows "card_jobId stamp c
           \<in> set (existingJobIds (store (scrapeLinkedInJobs stringify stamps dir pages)))"
proof (cases "card_jobId stamp c \<in> set (existingJobIds dir)")
  case True
  let ?st = "scrape_pages (existingJobIds dir) stamps 0 pages
               \<lparr>store = dir, jobs = [], skippedCount = 0\<rparr>"
  have "fst ` set dir \<subseteq> fst ` set (store ?st)"
    using keys_scrape_pages [of "\<lparr>store = dir, jobs = [], skippedCount = 0\<rparr>"] by simp
  then have "fst ` set dir \<subseteq> fst ` set (store (scrapeLinkedInJobs stringify stamps dir pages))"
    unfolding scrapeLinkedInJobs_def using keys_write_summary by blast
  then show ?thesis
    using True existing_mono by blast
next
  case False
  let ?st = "scrape_pages (existingJobIds dir) stamps 0 pages
               \<lparr>store = dir, jobs = [], skippedCount = 0\<rparr>"
  from False assms have "card_jobId stamp c @ ''.txt'' \<in> fst ` set (store ?st)"
    by (intro scrape_pages_key) simp_all
  then have "card_jobId stamp c @ ''.txt''
      \<in> fst ` set (store (scrapeLinkedInJobs stringify stamps dir pages))"
    unfolding scrapeLinkedInJobs_def using keys_write_summary by blast
  moreover have "\<forall>ch\<in>set (card_jobId stamp c). is_digit ch"
    using assms(3) by (rule card_jobId_canonical(2))
  ultimately show ?thesis by (rule existing_of_key)
qed

text \<open>
  C5, as the claim states it, fails for a card without a canonical link: its identifier
  is synthesized from the clock and a random number, so the second run extracts an
  identifier that the store does not hold, and writes a second record for the same card.
\<close>

theorem synthesized_identifier_scraped_again:
  "map fst (store (scrapeLinkedInJobs sample_stringify (sample_stamps ''1-a'') []
        [[sample_unlinked_card]]))
     = [''job-1-a.txt'', ''_summary.json'']
   \<and> map fst (store (scrapeLinkedInJobs sample_stringify (sample_stamps ''2-b'')
        (store (scrapeLinkedInJobs sample_stringify (sample_stamps ''1-a'') []
           [[sample_unlinked_card]]))
        [[sample_unlinked_card]]))
     = [''job-1-a.txt'', ''_summary.json'', ''job-2-b.txt'']
   \<and> map posting_id (jobs (scrapeLinkedInJobs sample_stringify (sample_stamps ''2-b'')
        (store (scrapeLinkedInJobs sample_stringify (sample_stamps ''1-a'') []
           [[sample_unlinked_card]]))
        [[sample_unlinked_card]]))
     = [''job-2-b'']"
  by code_simp

text \<open>
  A second way for the second run to write a record: the details element of an item was
  missing on the first run (the panel did not load) and is there on the second.
\<close>

lemma late_panel_scraped_on_second_run:
  "map fst (store (scrapeLinkedInJobs sample_stringify (sample_stamps ''1-a'') []
        [[sample_card\<lparr>job_details := None\<rparr>]]))
     = [''_summary.json'']
   \<and> map fst (store (scrapeLinkedInJobs sample_stringify (sample_stamps ''2-b'')
        (store (scrapeLinkedInJobs sample_stringify (sample_stamps ''1-a'') []
           [[sample_card\<lparr>job_details := None\<rparr>]]))
        [[sample_card]]))
     = [''_summary.json'', ''123.txt'']"
  by code_simp

text \<open>
  C5, amended. Let the first run see the pages \<open>pages1\<close> and the second, started on the
  directory the first run left, the pages \<open>pages2\<close>. If every item of the second run has
  a canonical link (so that no identifier is synthesized), and every item that can be
  persisted on the second run carries the link of an item that could be persisted on
  the first (it was written then, or was in the store already), then the second run
  yields zero new records: each such item has an identifier that is among the existing
  ones and is skipped, no record file is written or changed, and the only write is that
  of \<open>_summary.json\<close>, which now holds the empty list of jobs.
\<close>

theorem second_scrape_writes_no_record:
  assumes "\<forall>c2\<in>set (concat pages2). has_canonical_link c2"
    and "\<forall>c2\<in>set (concat pages2). persistable c2 \<longrightarrow>
           (\<exists>c1\<in>set (concat pages1). anchor c1 = anchor c2 \<and> persistable c1)"
  shows "jobs (scrapeLinkedInJobs stringify stamps2
                 (store (scrapeLinkedInJobs stringify stamps1 dir pages1)) pages2) = []
       \<and> store (scrapeLinkedInJobs stringify stamps2
                 (store (scrapeLinkedInJobs stringify stamps1 dir pages1)) pages2)
           = AList.update ''_summary.json'' (stringify [])
               (store (scrapeLinkedInJobs stringify stamps1 dir pages1))
       \<and> (\<forall>name. name \<noteq> ''_summary.json'' \<longrightarrow>
             map_of (store (scrapeLinkedInJobs stringify stamps2
                       (store (scrapeLinkedInJobs stringify stamps1 dir pages1)) pages2)) name
               = map_of (store (scrapeLinkedInJobs stringify stamps1 dir pages1)) name)
       \<and> (\<forall>c2\<in>set (concat pages2). \<forall>stamp. persistable c2 \<longrightarrow>
             card_jobId stamp c2
               \<in> set (existingJobIds (store (scrapeLinkedInJobs stringify stamps1 dir pages1))))"
proof -
  let ?store1 = "store (scrapeLinkedInJobs stringify stamps1 dir pages1)"
  let ?start = "\<lparr>store = ?store1, jobs = [], skippedCount = 0\<rparr>"
  have known: "card_jobId stamp c2 \<in> set (existingJobIds ?store1)"
    if c2: "c2 \<in> set (concat pages2)" and p2: "persistable c2" for c2 stamp
  proof -
    from assms(2) c2 p2 obtain c1 where c1: "c1 \<in> set (concat pages1)"
      and same: "anchor c1 = anchor c2" and p1: "persistable c1"
      by blast
    have "has_canonical_link c1"
      using assms(1) c2 has_canonical_link_anchor [OF same] by blast
    with c1 p1 have "card_jobId stamp c1 \<in> set (existingJobIds ?store1)"
      by (intro first_run_makes_known)
    then show ?thesis
      using card_jobId_anchor [OF same] by simp
  qed
  then have "\<forall>c\<in>set (concat pages2). \<forall>stamp.
               item_fails c \<or> card_jobId stamp c \<in> set (existingJobIds ?store1)
               \<or> job_details c = None"
    unfolding persistable_def by blast
  then have idle: "store (scrape_pages (existingJobIds ?store1) stamps2 0 pages2 ?start)
                     = store ?start
                 \<and> jobs (scrape_pages (existingJobIds ?store1) stamps2 0 pages2 ?start)
                     = jobs ?start"
    by (rule scrape_pages_idle)
  then have j: "jobs (scrapeLinkedInJobs stringify stamps2 ?store1 pages2) = []"
    and s: "store (scrapeLinkedInJobs stringify stamps2 ?store1 pages2)
              = AList.update ''_summary.json'' (stringify []) ?store1"
    by (simp_all add: scrapeLinkedInJobs_def write_summary_def)
  have "\<forall>name. name \<noteq> ''_summary.json'' \<longrightarrow>
          map_of (store (scrapeLinkedInJobs stringify stamps2 ?store1 pages2)) name
            = map_of ?store1 name"
    unfolding s by (simp add: update_conv')
  with j s known show ?thesis by blast
qed

theorem second_scrape_writes_no_record_witness:
  "store (scrapeLinkedInJobs sample_stringify (sample_stamps ''1-a'') []
      [[sample_card], [sample_card\<lparr>anchor := Some (Some ''/jobs/view/77''), job_details := None\<rparr>]])
     = [(''123.txt'', ''Company: Acme'' @ [CHR 0x0A] @ ''Location: Berlin'' @ [CHR 0x0A, CHR 0x0A]
           @ ''Great job''),
        (''_summary.json'', ''[123]'')]
   \<and> store (scrapeLinkedInJobs sample_stringify (sample_stamps ''2-b'')
        (store (scrapeLinkedInJobs sample_stringify (sample_stamps ''1-a'') []
          [[sample_card], [sample_card\<lparr>anchor := Some (Some ''/jobs/view/77''), job_details := None\<rparr>]]))
        [[sample_card\<lparr>anchor := Some (Some ''/jobs/view/77''), job_details := None\<rparr>,
          sample_card\<lparr>company_element := None\<rparr>]])
     = [(''123.txt'', ''Company: Acme'' @ [CHR 0x0A] @ ''Location: Berlin'' @ [CHR 0x0A, CHR 0x0A]
           @ ''Great job''),
        (''_summary.json'', ''[]'')]
   \<and> jobs (scrapeLinkedInJobs sample_stringify (sample_stamps ''2-b'')
        (store (scrapeLinkedInJobs sample_stringify (sample_stamps ''1-a'') []
          [[sample_card], [sample_card\<lparr>anchor := Some (Some ''/jobs/view/77''), job_details := None\<rparr>]]))
        [[sample_card\<lparr>anchor := Some (Some ''/jobs/view/77''), job_details := None\<rparr>,
          sample_card\<lparr>company_element := None\<rparr>]])
     = []"
proof -
  let ?c77 = "sample_card\<lparr>anchor := Some (Some ''/jobs/view/77''), job_details := None\<rparr>"
  let ?c123 = "sample_card\<lparr>company_element := None\<rparr>"
  let ?pages1 = "[[sample_card], [?c77]]"
  let ?pages2 = "[[?c77, ?c123]]"
  have links: "has_canonical_link ?c77" "has_canonical_link ?c123"
    by code_simp+
  then have h1: "\<forall>c2\<in>set (concat ?pages2). has_canonical_link c2"
    by simp
  have p: "\<not> persistable ?c77" "persistable sample_card"
    by code_simp+
  have "anchor sample_card = anchor ?c123"
    by simp
  with p have h2: "\<forall>c2\<in>set (concat ?pages2). persistable c2 \<longrightarrow>
           (\<exists>c1\<in>set (concat ?pages1). anchor c1 = anchor c2 \<and> persistable c1)"
    by simp
  have first: "store (scrapeLinkedInJobs sample_stringify (sample_stamps ''1-a'') [] ?pages1)
     = [(''123.txt'', ''Company: Acme'' @ [CHR 0x0A] @ ''Location: Berlin'' @ [CHR 0x0A, CHR 0x0A]
           @ ''Great job''),
        (''_summary.json'', ''[123]'')]"
    by code_simp
  have empty: "sample_stringify [] = ''[]''"
    by code_simp
  from second_scrape_writes_no_record [OF h1 h2, of sample_stringify "sample_stamps ''2-b''"
      "sample_stamps ''1-a''" "[]"]
  have "jobs (scrapeLinkedInJobs sample_stringify (sample_stamps ''2-b'')
                 (store (scrapeLinkedInJobs sample_stringify (sample_stamps ''1-a'') [] ?pages1))
                 ?pages2) = []"
    and "store (scrapeLinkedInJobs sample_stringify (sample_stamps ''2-b'')
                 (store (scrapeLinkedInJobs sample_stringify (sample_stamps ''1-a'') [] ?pages1))
                 ?pages2)
           = AList.update ''_summary.json'' (sample_stringify [])
               (store (scrapeLinkedInJobs sample_stringify (sample_stamps ''1-a'') [] ?pages1))"
    by blast+
  then show ?thesis
    unfolding first empty by simp
qed

lemma nth_numbered:
  "i < length xs \<Longrightarrow> map (\<lambda>(index, item). g item index) (enumerate 0 xs) ! i = g (xs ! i) i"
  by (simp add: nth_enumerate_eq)

lemma summary_head_ends:
  "\<exists>top. summary_head env results
     = top @ ''SUITABLE JOBS (Sorted by Score)'' @ [CHR 0x0A] @ replicate 80 CHR ''=''
       @ [CHR 0x0A, CHR 0x0A]"
proof -
  let ?suitable = "filter (has_status ''suitable'') results"
  let ?maybe = "filter (has_status ''maybe_suitable'') results"
  let ?top = "''JOB SUITABILITY ANALYSIS REPORT'' @ nl
         @ rule80 @ nl
         @ ''Generated: '' @ summary_time env @ nl
         @ rule80 @ nl @ nl
         @ ''Total Jobs Analyzed: '' @ nat_text (length results) @ nl
         @ ''Suitable: '' @ nat_text (length ?suitable) @ '' | Maybe: '' @ nat_text (length ?maybe)
         @ '' | Not Suitable: '' @ nat_text (length results - length ?suitable - length ?maybe)
         @ nl @ nl
         @ rule80 @ nl"
  have eq: "summary_head env results
     = ?top @ ''SUITABLE JOBS (Sorted by Score)'' @ [CHR 0x0A] @ replicate 80 CHR ''=''
       @ [CHR 0x0A, CHR 0x0A]"
    by (simp only: summary_head_def Let_def nl_def rule80_def append_assoc append_Cons append_Nil)
  show ?thesis by (rule exI) (rule eq)
qed

lemma suitable_entry_starts:
  "\<exists>rest. suitable_entry env item index
     = nat_text (index + 1) @ ''. '' @ jobFile item @ '' - Score: ''
       @ score_text env (match_score (result item)) @ ''/10'' @ [CHR 0x0A]
       @ ''   LinkedIn: '' @ linkedinUrl item @ [CHR 0x0A] @ rest"
  by (simp add: suitable_entry_def nl_def)

lemma maybe_entry_starts:
  "\<exists>rest. maybe_entry env item index
     = nat_text (index + 1) @ ''. '' @ jobFile item @ '' - Score: ''
       @ score_text env (match_score (result item)) @ ''/10'' @ [CHR 0x0A]
       @ ''   LinkedIn: '' @ linkedinUrl item @ [CHR 0x0A] @ rest"
  by (simp add: maybe_entry_def nl_def)

lemma run_summary_input:
  assumes "run env d resume_file dir = Inr s"
  shows "summary_file (files s) = Some (generateSummaryReport env (Object_values (cache s)))"
  using assms
  by (auto simp: run_def Let_def write_results_def initial_state_def split: sum.splits if_splits)

text \<open>
  C10. For every list of records given to \<open>generateSummaryReport\<close> (\<open>run\<close> gives it the
  values of the cache in the order the cache enumerates them), the report is some top
  part, the heading of the suitable section, one block for every suitable record, and,
  if there is any maybe-suitable record, the heading of that section and one block for
  each of the first 20 maybe-suitable records. The blocks follow the order of the list;
  block \<open>i\<close> of a section starts with the number \<open>i + 1\<close>, the file name, the score and
  the LinkedIn address of the \<open>i\<close>-th record of that kind. The suitable section has as
  many blocks as there are suitable records, the other at most 20: nothing is written
  for a maybe-suitable record after the twentieth, and once there are 20, further
  maybe-suitable records change the report in its head (the counts) only.
\<close>

theorem summary_report_sections:
  "(\<exists>top blocksS blocksM.
      generateSummaryReport env results
        = top @ ''SUITABLE JOBS (Sorted by Score)'' @ [CHR 0x0A] @ replicate 80 CHR ''=''
          @ [CHR 0x0A, CHR 0x0A]
          @ concat blocksS
          @ (if filter (\<lambda>r. suitability_status (result r) = Some ''maybe_suitable'') results = []
             then []
             else [CHR 0x0A] @ replicate 80 CHR ''='' @ [CHR 0x0A]
                  @ ''MAYBE SUITABLE JOBS (Worth Considering)'' @ [CHR 0x0A]
                  @ replicate 80 CHR ''='' @ [CHR 0x0A, CHR 0x0A]
                  @ concat blocksM)
      \<and> length blocksS
          = length (filter (\<lambda>r. suitability_status (result r) = Some ''suitable'') results)
      \<and> (\<forall>i < length (filter (\<lambda>r. suitability_status (result r) = Some ''suitable'') results).
            \<exists>rest. blocksS ! i
              = nat_text (i + 1) @ ''. ''
                @ jobFile (filter (\<lambda>r. suitability_status (result r) = Some ''suitable'') results ! i)
                @ '' - Score: ''
                @ score_text env (match_score (result
                    (filter (\<lambda>r. suitability_status (result r) = Some ''suitable'') results ! i)))
                @ ''/10'' @ [CHR 0x0A] @ ''   LinkedIn: ''
                @ linkedinUrl
                    (filter (\<lambda>r. suitability_status (result r) = Some ''suitable'') results ! i)
                @ [CHR 0x0A] @ rest)
      \<and> length blocksM
          = min 20 (length (filter (\<lambda>r. suitability_status (result r) = Some ''maybe_suitable'')
                              results))
      \<and> (\<forall>i < min 20 (length (filter (\<lambda>r. suitability_status (result r) = Some ''maybe_suitable'')
                                   results)).
            \<exists>rest. blocksM ! i
              = nat_text (i + 1) @ ''. ''
                @ jobFile
                    (filter (\<lambda>r. suitability_status (result r) = Some ''maybe_suitable'') results ! i)
                @ '' - Score: ''
                @ score_text env (match_score (result
                    (filter (\<lambda>r. suitability_status (result r) = Some ''maybe_suitable'') results
                       ! i)))
                @ ''/10'' @ [CHR 0x0A] @ ''   LinkedIn: ''
                @ linkedinUrl
                    (filter (\<lambda>r. suitability_status (result r) = Some ''maybe_suitable'') results ! i)
                @ [CHR 0x0A] @ rest))
   \<and> (20 \<le> length (filter (\<lambda>r. suitability_status (result r) = Some ''maybe_suitable'') results)
        \<and> list_all (\<lambda>r. suitability_status (result r) = Some ''maybe_suitable'') extra
      \<longrightarrow> drop (length (summary_head env (results @ extra)))
            (generateSummaryReport env (results @ extra))
          = drop (length (summary_head env results)) (generateSummaryReport env results))"
proof (intro conjI impI)
  let ?isS = "\<lambda>r. suitability_status (result r) = Some ''suitable''"
  let ?isM = "\<lambda>r. suitability_status (result r) = Some ''maybe_suitable''"
  let ?suitable = "filter ?isS results"
  let ?maybe = "filter ?isM results"
  let ?blocksS = "map (\<lambda>(index, item). suitable_entry env item index) (enumerate 0 ?suitable)"
  let ?blocksM = "map (\<lambda>(index, item). maybe_entry env item index) (enumerate 0 (take 20 ?maybe))"
  have isS: "has_status ''suitable'' = ?isS" and isM: "has_status ''maybe_suitable'' = ?isM"
    by (auto simp: has_status_def fun_eq_iff)
  obtain top where top: "summary_head env results
     = top @ ''SUITABLE JOBS (Sorted by Score)'' @ [CHR 0x0A] @ replicate 80 CHR ''=''
       @ [CHR 0x0A, CHR 0x0A]"
    using summary_head_ends by blast
  have report: "generateSummaryReport env results
        = top @ ''SUITABLE JOBS (Sorted by Score)'' @ [CHR 0x0A] @ replicate 80 CHR ''=''
          @ [CHR 0x0A, CHR 0x0A]
          @ concat ?blocksS
          @ (if ?maybe = [] then []
             else [CHR 0x0A] @ replicate 80 CHR ''='' @ [CHR 0x0A]
                  @ ''MAYBE SUITABLE JOBS (Worth Considering)'' @ [CHR 0x0A]
                  @ replicate 80 CHR ''='' @ [CHR 0x0A, CHR 0x0A]
                  @ concat ?blocksM)"
    unfolding summary_report_closed_form top isS isM
    by (simp add: maybe_head_def nl_def rule80_def)
  have lenS: "length ?blocksS = length ?suitable"
    by simp
  have lenM: "length ?blocksM = min 20 (length ?maybe)"
    by (simp add: min_def)
  have startS: "\<forall>i < length ?suitable.
            \<exists>rest. ?blocksS ! i
              = nat_text (i + 1) @ ''. '' @ jobFile (?suitable ! i) @ '' - Score: ''
                @ score_text env (match_score (result (?suitable ! i)))
                @ ''/10'' @ [CHR 0x0A] @ ''   LinkedIn: '' @ linkedinUrl (?suitable ! i)
                @ [CHR 0x0A] @ rest"
  proof (intro allI impI)
    fix i assume "i < length ?suitable"
    then have "?blocksS ! i = suitable_entry env (?suitable ! i) i"
      by (rule nth_numbered)
    then show "\<exists>rest. ?blocksS ! i
              = nat_text (i + 1) @ ''. '' @ jobFile (?suitable ! i) @ '' - Score: ''
                @ score_text env (match_score (result (?suitable ! i)))
                @ ''/10'' @ [CHR 0x0A] @ ''   LinkedIn: '' @ linkedinUrl (?suitable ! i)
                @ [CHR 0x0A] @ rest"
      using suitable_entry_starts [of env "?suitable ! i" i] by simp
  qed
  have startM: "\<forall>i < min 20 (length ?maybe).
            \<exists>rest. ?blocksM ! i
              = nat_text (i + 1) @ ''. '' @ jobFile (?maybe ! i) @ '' - Score: ''
                @ score_text env (match_score (result (?maybe ! i)))
                @ ''/10'' @ [CHR 0x0A] @ ''   LinkedIn: '' @ linkedinUrl (?maybe ! i)
                @ [CHR 0x0A] @ rest"
  proof (intro allI impI)
    fix i assume i: "i < min 20 (length ?maybe)"
    then have "i < length (take 20 ?maybe)"
      by simp
    then have "?blocksM ! i = maybe_entry env (take 20 ?maybe ! i) i"
      by (rule nth_numbered)
    moreover have "take 20 ?maybe ! i = ?maybe ! i"
      using i by simp
    ultimately show "\<exists>rest. ?blocksM ! i
              = nat_text (i + 1) @ ''. '' @ jobFile (?maybe ! i) @ '' - Score: ''
                @ score_text env (match_score (result (?maybe ! i)))
                @ ''/10'' @ [CHR 0x0A] @ ''   LinkedIn: '' @ linkedinUrl (?maybe ! i)
                @ [CHR 0x0A] @ rest"
      using maybe_entry_starts [of env "?maybe ! i" i] by simp
  qed
  from report lenS startS lenM startM
  show "\<exists>top blocksS blocksM.
      generateSummaryReport env results
        = top @ ''SUITABLE JOBS (Sorted by Score)'' @ [CHR 0x0A] @ replicate 80 CHR ''=''
          @ [CHR 0x0A, CHR 0x0A]
          @ concat blocksS
          @ (if ?maybe = [] then []
             else [CHR 0x0A] @ replicate 80 CHR ''='' @ [CHR 0x0A]
                  @ ''MAYBE SUITABLE JOBS (Worth Considering)'' @ [CHR 0x0A]
                  @ replicate 80 CHR ''='' @ [CHR 0x0A, CHR 0x0A]
                  @ concat blocksM)
      \<and> length blocksS = length ?suitable
      \<and> (\<forall>i < length ?suitable.
            \<exists>rest. blocksS ! i
              = nat_text (i + 1) @ ''. '' @ jobFile (?suitable ! i) @ '' - Score: ''
                @ score_text env (match_score (result (?suitable ! i)))
                @ ''/10'' @ [CHR 0x0A] @ ''   LinkedIn: '' @ linkedinUrl (?suitable ! i)
                @ [CHR 0x0A] @ rest)
      \<and> length blocksM = min 20 (length ?maybe)
      \<and> (\<forall>i < min 20 (length ?maybe).
            \<exists>rest. blocksM ! i
              = nat_text (i + 1) @ ''. '' @ jobFile (?maybe ! i) @ '' - Score: ''
                @ score_text env (match_score (result (?maybe ! i)))
                @ ''/10'' @ [CHR 0x0A] @ ''   LinkedIn: '' @ linkedinUrl (?maybe ! i)
                @ [CHR 0x0A] @ rest)"
    by (intro exI conjI)
  assume "20 \<le> length ?maybe \<and> list_all ?isM extra"
  then show "drop (length (summary_head env (results @ extra)))
            (generateSummaryReport env (results @ extra))
          = drop (length (summary_head env results)) (generateSummaryReport env results)"
    unfolding isM [symmetric] by (intro summary_report_beyond_20) (simp_all add: list_all_iff)
qed

theorem summary_report_sections_witness:
  "(\<exists>top blocksS.
      generateSummaryReport (sample_env [])
        [sample_record ''a.txt'' ''suitable'' 9, sample_record ''b.txt'' ''not_suitable'' 2]
        = top @ ''SUITABLE JOBS (Sorted by Score)'' @ [CHR 0x0A] @ replicate 80 CHR ''=''
          @ [CHR 0x0A, CHR 0x0A] @ concat blocksS
      \<and> length blocksS = 1
      \<and> (\<exists>rest. blocksS ! 0
            = ''1. a.txt - Score: #/10'' @ [CHR 0x0A]
              @ ''   LinkedIn: https://www.linkedin.com/jobs/collections/recommended/?currentJobId=a''
              @ [CHR 0x0A] @ rest))
   \<and> drop (length (summary_head (sample_env [])
           (replicate 20 (sample_record ''m.txt'' ''maybe_suitable'' 5)
            @ [sample_record ''late.txt'' ''maybe_suitable'' 6])))
       (generateSummaryReport (sample_env [])
          (replicate 20 (sample_record ''m.txt'' ''maybe_suitable'' 5)
           @ [sample_record ''late.txt'' ''maybe_suitable'' 6]))
     = drop (length (summary_head (sample_env [])
           (replicate 20 (sample_record ''m.txt'' ''maybe_suitable'' 5))))
       (generateSummaryReport (sample_env [])
          (replicate 20 (sample_record ''m.txt'' ''maybe_suitable'' 5)))"
proof
  let ?A = "sample_record ''a.txt'' ''suitable'' 9"
  let ?B = "sample_record ''b.txt'' ''not_suitable'' 2"
  let ?isS = "\<lambda>r. suitability_status (result r) = Some ''suitable''"
  let ?isM = "\<lambda>r. suitability_status (result r) = Some ''maybe_suitable''"
  have fS: "filter ?isS [?A, ?B] = [?A]" and fM: "filter ?isM [?A, ?B] = []"
    by (simp_all add: sample_record_def sample_result_def)
  have one: "nat_text (0 + 1) = ''1''"
    by code_simp
  have vals: "jobFile ?A = ''a.txt''"
    "score_text (sample_env []) (match_score (result ?A)) = ''#''"
    "linkedinUrl ?A = ''https://www.linkedin.com/jobs/collections/recommended/?currentJobId=a''"
    by (simp_all add: sample_record_def sample_result_def score_text_def sample_env_def
        getLinkedInUrl_def basename_ext_def endsWith_def Let_def)
  from summary_report_sections [of "sample_env []" "[?A, ?B]" "[]"]
  obtain top blocksS where
    r: "generateSummaryReport (sample_env []) [?A, ?B]
        = top @ ''SUITABLE JOBS (Sorted by Score)'' @ [CHR 0x0A] @ replicate 80 CHR ''=''
          @ [CHR 0x0A, CHR 0x0A] @ concat blocksS
          @ (if filter ?isM [?A, ?B] = [] then []
             else [CHR 0x0A] @ replicate 80 CHR ''='' @ [CHR 0x0A]
                  @ ''MAYBE SUITABLE JOBS (Worth Considering)'' @ [CHR 0x0A]
                  @ replicate 80 CHR ''='' @ [CHR 0x0A, CHR 0x0A]
                  @ concat [])"
    and l: "length blocksS = length (filter ?isS [?A, ?B])"
    and b: "\<forall>i < length (filter ?isS [?A, ?B]).
            \<exists>rest. blocksS ! i
              = nat_text (i + 1) @ ''. '' @ jobFile (filter ?isS [?A, ?B] ! i) @ '' - Score: ''
                @ score_text (sample_env []) (match_score (result (filter ?isS [?A, ?B] ! i)))
                @ ''/10'' @ [CHR 0x0A] @ ''   LinkedIn: '' @ linkedinUrl (filter ?isS [?A, ?B] ! i)
                @ [CHR 0x0A] @ rest"
    unfolding fM by auto
  from r have r': "generateSummaryReport (sample_env []) [?A, ?B]
        = top @ ''SUITABLE JOBS (Sorted by Score)'' @ [CHR 0x0A] @ replicate 80 CHR ''=''
          @ [CHR 0x0A, CHR 0x0A] @ concat blocksS"
    unfolding fM by simp
  from l have l': "length blocksS = 1"
    unfolding fS by simp
  from b have "\<exists>rest. blocksS ! 0
              = nat_text (0 + 1) @ ''. '' @ jobFile ?A @ '' - Score: ''
                @ score_text (sample_env []) (match_score (result ?A))
                @ ''/10'' @ [CHR 0x0A] @ ''   LinkedIn: '' @ linkedinUrl ?A
                @ [CHR 0x0A] @ rest"
    unfolding fS by simp
  then have b': "\<exists>rest. blocksS ! 0
            = ''1. a.txt - Score: #/10'' @ [CHR 0x0A]
              @ ''   LinkedIn: https://www.linkedin.com/jobs/collections/recommended/?currentJobId=a''
              @ [CHR 0x0A] @ rest"
    unfolding one vals by simp
  show "\<exists>top blocksS.
      generateSummaryReport (sample_env []) [?A, ?B]
        = top @ ''SUITABLE JOBS (Sorted by Score)'' @ [CHR 0x0A] @ replicate 80 CHR ''=''
          @ [CHR 0x0A, CHR 0x0A] @ concat blocksS
      \<and> length blocksS = 1
      \<and> (\<exists>rest. blocksS ! 0
            = ''1. a.txt - Score: #/10'' @ [CHR 0x0A]
              @ ''   LinkedIn: https://www.linkedin.com/jobs/collections/recommended/?currentJobId=a''
              @ [CHR 0x0A] @ rest)"
    by (rule exI [where x = top], rule exI [where x = blocksS]) (intro conjI r' l' b')
next
  let ?isM = "\<lambda>r. suitability_status (result r) = Some ''maybe_suitable''"
  have m: "?isM (sample_record ''m.txt'' ''maybe_suitable'' 5)"
    and l: "?isM (sample_record ''late.txt'' ''maybe_suitable'' 6)"
    by (simp_all add: sample_record_def sample_result_def)
  from m have "filter ?isM (replicate 20 (sample_record ''m.txt'' ''maybe_suitable'' 5))
               = replicate 20 (sample_record ''m.txt'' ''maybe_suitable'' 5)"
    by simp
  then have 1: "20 \<le> length (filter ?isM (replicate 20 (sample_record ''m.txt'' ''maybe_suitable'' 5)))"
    by simp
  from l have 2: "list_all ?isM [sample_record ''late.txt'' ''maybe_suitable'' 6]"
    by simp
  from summary_report_sections [of "sample_env []"
      "replicate 20 (sample_record ''m.txt'' ''maybe_suitable'' 5)"
      "[sample_record ''late.txt'' ''maybe_suitable'' 6]"] 1 2
  show "drop (length (summary_head (sample_env [])
           (replicate 20 (sample_record ''m.txt'' ''maybe_suitable'' 5)
            @ [sample_record ''late.txt'' ''maybe_suitable'' 6])))
       (generateSummaryReport (sample_env [])
          (replicate 20 (sample_record ''m.txt'' ''maybe_suitable'' 5)
           @ [sample_record ''late.txt'' ''maybe_suitable'' 6]))
     = drop (length (summary_head (sample_env [])
           (replicate 20 (sample_record ''m.txt'' ''maybe_suitable'' 5))))
       (generateSummaryReport (sample_env [])
          (replicate 20 (sample_record ''m.txt'' ''maybe_suitable'' 5)))"
    by blast
qed

section \<open>The order of the results file\<close>

lemma values_fold_cache_set:
  "set (Object_values (fold (\<lambda>r c. cache_set c (jobFile r) r) records c))
     \<subseteq> set (Object_values c) \<union> set records"
proof (induction records arbitrary: c)
  case Nil
  then show ?case by simp
next
  case (Cons r records)
  show ?case
    using Cons.IH [of "cache_set c (jobFile r) r"] set_values_cache_set [of c "jobFile r" r]
    by auto
qed

lemma values_loadAnalysisCache:
  "set (Object_values (loadAnalysisCache f0))
     \<subseteq> set (case f0 of None \<Rightarrow> [] | Some records \<Rightarrow> records)"
proof (cases f0)
  case None
  then show ?thesis by (simp add: loadAnalysisCache_def Object_values_def)
next
  case (Some records)
  then show ?thesis
    using values_fold_cache_set [of records "[]"]
    by (simp add: loadAnalysisCache_def Object_values_def)
qed

lemma has_score_analyze_item:
  assumes "\<forall>r\<in>set (Object_values (cache s)). has_score r"
    and "\<forall>i t r. generateContent env i t = Payload r \<longrightarrow> match_score r \<noteq> None"
  shows "\<forall>r\<in>set (Object_values (cache (analyze_item env resume i f s))). has_score r"
proof (cases "analyzeJobSuitability env i (snd f) resume")
  case (Inl e)
  then show ?thesis
    using assms(1) by (simp add: analyze_item_failure)
next
  case (Inr p)
  then have "generateContent env i (request_text env (snd f) resume) = Payload p"
    by (simp add: analyzeJobSuitability_def split: response.splits)
  with assms(2) have scored: "match_score p \<noteq> None"
    by blast
  let ?e = "\<lparr>jobFile = fst f, jobId = fst (getLinkedInUrl (fst f)),
             linkedinUrl = snd (getLinkedInUrl (fst f)), analyzedAt = item_time env i,
             result = p\<rparr>"
  have "cache (analyze_item env resume i f s) = cache_set (cache s) (fst f) ?e"
    using Inr by (simp add: analyze_item_def write_results_def Let_def split: option.splits)
  moreover have "has_score ?e"
    using scored by (simp add: has_score_def)
  ultimately show ?thesis
    using assms(1) set_values_cache_set [of "cache s" "fst f" ?e] by auto
qed

lemma has_score_analyze_loop:
  assumes "\<forall>r\<in>set (Object_values (cache s)). has_score r"
    and "\<forall>i t r. generateContent env i t = Payload r \<longrightarrow> match_score r \<noteq> None"
  shows "\<forall>r\<in>set (Object_values (cache (analyze_loop env resume i fs s))). has_score r"
  using assms(1)
proof (induction fs arbitrary: i s)
  case Nil
  then show ?case by simp
next
  case (Cons f fs)
  have "\<forall>r\<in>set (Object_values (cache (analyze_item env resume i f s))). has_score r"
    using Cons.prems assms(2) by (rule has_score_analyze_item)
  then show ?case
    using Cons.IH by simp
qed

lemma cache_run_work_set:
  assumes "run env d resume_file dir = Inr s"
    and "jobsToAnalyze (loadAnalysisCache (results_file d)) (getJobPostingFiles dir) \<noteq> []"
  shows "\<exists>resume. cache s
           = cache (analyze_loop env resume 0
                 (jobsToAnalyze (loadAnalysisCache (results_file d)) (getJobPostingFiles dir))
                 (initial_state (loadAnalysisCache (results_file d)) d))"
  using assms
  by (auto simp: run_def Let_def write_results_def split: sum.splits)

lemma sorted_snapshot:
  assumes "\<forall>r\<in>set (Object_values c). has_score r"
  shows "sorted_wrt score_ge (saveAnalysisCache c)
       \<and> mset (saveAnalysisCache c) = mset (Object_values c)
       \<and> (\<forall>v. filter (\<lambda>r. match_score (result r) = v) (saveAnalysisCache c)
              = filter (\<lambda>r. match_score (result r) = v) (Object_values c))"
  unfolding saveAnalysisCache_def
  using assms by (simp add: sorted_array_sort_score mset_array_sort filter_array_sort_score)

lemma upserts_snapshot_sorted:
  assumes "\<forall>r\<in>set (Object_values (cache s)). has_score r"
    and "\<forall>kv\<in>set ups. has_score (snd kv)"
    and "ups \<noteq> []"
  shows "\<exists>snapshot.
           results_file (files (foldl upsert s ups)) = Some snapshot
         \<and> sorted_wrt score_ge snapshot
         \<and> mset snapshot = mset (Object_values (cache (foldl upsert s ups)))
         \<and> (\<forall>v. filter (\<lambda>r. match_score (result r) = v) snapshot
                = filter (\<lambda>r. match_score (result r) = v)
                    (Object_values (cache (foldl upsert s ups))))"
proof -
  let ?c = "cache (foldl upsert s ups)"
  have scored: "\<forall>r\<in>set (Object_values ?c). has_score r"
    using assms(1,2) by (rule has_score_upserts)
  have written: "results_file (files (foldl upsert s ups)) = Some (saveAnalysisCache ?c)"
    using assms(3) by (rule results_upserts)
  from sorted_snapshot [OF scored] written show ?thesis by simp
qed

lemma run_snapshot_sorted:
  assumes "run env d resume_file dir = Inr s"
    and "jobsToAnalyze (loadAnalysisCache (results_file d)) (getJobPostingFiles dir) \<noteq> []"
    and "\<forall>r\<in>set (case results_file d of None \<Rightarrow> [] | Some records \<Rightarrow> records). has_score r"
    and "\<forall>i t r. generateContent env i t = Payload r \<longrightarrow> match_score r \<noteq> None"
  shows "\<exists>snapshot.
           results_file (files s) = Some snapshot
         \<and> sorted_wrt score_ge snapshot
         \<and> mset snapshot = mset (Object_values (cache s))
         \<and> (\<forall>v. filter (\<lambda>r. match_score (result r) = v) snapshot
                = filter (\<lambda>r. match_score (result r) = v) (Object_values (cache s)))"
proof -
  let ?c0 = "loadAnalysisCache (results_file d)"
  have "\<forall>r\<in>set (Object_values ?c0). has_score r"
    using assms(3) values_loadAnalysisCache [of "results_file d"] by blast
  then have start: "\<forall>r\<in>set (Object_values (cache (initial_state ?c0 d))). has_score r"
    by (simp add: initial_state_def)
  obtain resume where "cache s
      = cache (analyze_loop env resume 0 (jobsToAnalyze ?c0 (getJobPostingFiles dir))
                 (initial_state ?c0 d))"
    using cache_run_work_set [OF assms(1,2)] by blast
  then have scored: "\<forall>r\<in>set (Object_values (cache s)). has_score r"
    using has_score_analyze_loop [OF start assms(4)] by simp
  have written: "results_file (files s) = Some (saveAnalysisCache (cache s))"
    using run_work_set_writes_both [OF assms(1,2)] by simp
  from sorted_snapshot [OF scored] written show ?thesis by simp
qed

text \<open>
  C2, as the claim states it, fails, because a payload without a score is accepted. Three
  postings are answered with the scores 1, none and 2: all three are stored as
  successes, every comparison with the record that has no score is \<open>NaN\<close>, read as equal,
  and the results file keeps the order 1, none, 2, so that the score 1 stands before the
  score 2.
\<close>

theorem missing_score_breaks_order:
  "map_sum id (results_file \<circ> files)
     (run (sample_env [Payload (sample_result ''suitable'' 1),
                       Payload ((sample_result ''suitable'' 0)\<lparr>match_score := None\<rparr>),
                       Payload (sample_result ''suitable'' 2)])
        no_files (Some ''resume'') [(''1.txt'', ''one''), (''2.txt'', ''two''), (''3.txt'', ''three'')])
   = Inr (Some [sample_record ''1.txt'' ''suitable'' 1,
                (sample_record ''2.txt'' ''suitable'' 0)
                  \<lparr>result := (sample_result ''suitable'' 0)\<lparr>match_score := None\<rparr>\<rparr>,
                sample_record ''3.txt'' ''suitable'' 2])
   \<and> \<not> sorted_wrt score_ge
         [sample_record ''1.txt'' ''suitable'' 1,
          (sample_record ''2.txt'' ''suitable'' 0)
            \<lparr>result := (sample_result ''suitable'' 0)\<lparr>match_score := None\<rparr>\<rparr>,
          sample_record ''3.txt'' ''suitable'' 2]
   \<and> \<not> score_ge (sample_record ''1.txt'' ''suitable'' 1) (sample_record ''3.txt'' ''suitable'' 2)"
  by (simp add: run_def readResume_def trim_def is_space_def loadAnalysisCache_def no_files_def
      getJobPostingFiles_def jobsToAnalyze_def endsWith_def cache_get_def initial_state_def
      analyze_item_def analyzeJobSuitability_def sample_env_def scripted_def sample_result_def
      sample_record_def score_ge_def SortCompare_def score_compare_def
      write_results_def cache_set_def saveAnalysisCache_def array_sort_def Object_values_def
      Let_def)

text \<open>
  C2, amended. As long as every record carries a score, the claim holds. Start from a
  cache whose records all carry a score and perform any non-empty sequence of upserts of
  records that carry a score: the results file then holds the whole cache (the same
  records, each as often as in the cache), written in one piece by the last upsert, in
  non-increasing order of score, and the records of one score stand in the order the
  cache enumerates them, so the order among ties is fixed by the cache alone. The same
  holds of the results file that a run with a non-empty work set leaves, when the
  records of the file it started from and the payloads the service returns all carry a
  score.
\<close>

theorem ledger_snapshot_sorted:
  "((\<forall>r\<in>set (Object_values (cache s)). has_score r) \<and> (\<forall>kv\<in>set ups. has_score (snd kv))
      \<and> ups \<noteq> []
    \<longrightarrow> (\<exists>snapshot.
           results_file (files (foldl upsert s ups)) = Some snapshot
         \<and> sorted_wrt score_ge snapshot
         \<and> mset snapshot = mset (Object_values (cache (foldl upsert s ups)))
         \<and> (\<forall>v. filter (\<lambda>r. match_score (result r) = v) snapshot
                = filter (\<lambda>r. match_score (result r) = v)
                    (Object_values (cache (foldl upsert s ups))))))
   \<and> (run env d resume_file dir = Inr s'
      \<and> jobsToAnalyze (loadAnalysisCache (results_file d)) (getJobPostingFiles dir) \<noteq> []
      \<and> (\<forall>r\<in>set (case results_file d of None \<Rightarrow> [] | Some records \<Rightarrow> records). has_score r)
      \<and> (\<forall>i t r. generateContent env i t = Payload r \<longrightarrow> match_score r \<noteq> None)
    \<longrightarrow> (\<exists>snapshot.
           results_file (files s') = Some snapshot
         \<and> sorted_wrt score_ge snapshot
         \<and> mset snapshot = mset (Object_values (cache s'))
         \<and> (\<forall>v. filter (\<lambda>r. match_score (result r) = v) snapshot
                = filter (\<lambda>r. match_score (result r) = v) (Object_values (cache s')))))"
proof (intro conjI impI)
  assume "(\<forall>r\<in>set (Object_values (cache s)). has_score r)
            \<and> (\<forall>kv\<in>set ups. has_score (snd kv)) \<and> ups \<noteq> []"
  then show "\<exists>snapshot.
           results_file (files (foldl upsert s ups)) = Some snapshot
         \<and> sorted_wrt score_ge snapshot
         \<and> mset snapshot = mset (Object_values (cache (foldl upsert s ups)))
         \<and> (\<forall>v. filter (\<lambda>r. match_score (result r) = v) snapshot
                = filter (\<lambda>r. match_score (result r) = v)
                    (Object_values (cache (foldl upsert s ups))))"
    by (intro upserts_snapshot_sorted) simp_all
next
  assume "run env d resume_file dir = Inr s'
      \<and> jobsToAnalyze (loadAnalysisCache (results_file d)) (getJobPostingFiles dir) \<noteq> []
      \<and> (\<forall>r\<in>set (case results_file d of None \<Rightarrow> [] | Some records \<Rightarrow> records). has_score r)
      \<and> (\<forall>i t r. generateContent env i t = Payload r \<longrightarrow> match_score r \<noteq> None)"
  then show "\<exists>snapshot.
           results_file (files s') = Some snapshot
         \<and> sorted_wrt score_ge snapshot
         \<and> mset snapshot = mset (Object_values (cache s'))
         \<and> (\<forall>v. filter (\<lambda>r. match_score (result r) = v) snapshot
                = filter (\<lambda>r. match_score (result r) = v) (Object_values (cache s')))"
    by (intro run_snapshot_sorted [of env d resume_file dir s']) simp_all
qed

theorem ledger_snapshot_sorted_witness:
  "results_file (files (foldl upsert (initial_state [] no_files)
       [(''a.txt'', sample_record ''a.txt'' ''not_suitable'' 2),
        (''b.txt'', sample_record ''b.txt'' ''suitable'' 9),
        (''c.txt'', sample_record ''c.txt'' ''maybe_suitable'' 2)]))
     = Some [sample_record ''b.txt'' ''suitable'' 9,
             sample_record ''a.txt'' ''not_suitable'' 2,
             sample_record ''c.txt'' ''maybe_suitable'' 2]
   \<and> sorted_wrt score_ge
         [sample_record ''b.txt'' ''suitable'' 9,
          sample_record ''a.txt'' ''not_suitable'' 2,
          sample_record ''c.txt'' ''maybe_suitable'' 2]
   \<and> map_sum id (results_file \<circ> files)
        (run (sample_env [Payload (sample_result ''not_suitable'' 2),
                          Payload (sample_result ''suitable'' 9)])
           no_files (Some ''resume'') [(''1.txt'', ''one''), (''2.txt'', ''two'')])
     = Inr (Some [sample_record ''2.txt'' ''suitable'' 9,
                  sample_record ''1.txt'' ''not_suitable'' 2])
   \<and> sorted_wrt score_ge
         [sample_record ''2.txt'' ''suitable'' 9, sample_record ''1.txt'' ''not_suitable'' 2]"
proof -
  let ?ups = "[(''a.txt'', sample_record ''a.txt'' ''not_suitable'' 2),
               (''b.txt'', sample_record ''b.txt'' ''suitable'' 9),
               (''c.txt'', sample_record ''c.txt'' ''maybe_suitable'' 2)]"
  let ?env = "sample_env [Payload (sample_result ''not_suitable'' 2),
                          Payload (sample_result ''suitable'' 9)]"
  let ?dir = "[(''1.txt'', ''one''), (''2.txt'', ''two'')]"
  have h1: "\<forall>r\<in>set (Object_values (cache (initial_state [] no_files))). has_score r"
    by (simp add: initial_state_def Object_values_def)
  have h2: "\<forall>kv\<in>set ?ups. has_score (snd kv)"
    by (simp add: has_score_def sample_record_def sample_result_def)
  have h3: "?ups \<noteq> []" by simp
  have val: "results_file (files (foldl upsert (initial_state [] no_files) ?ups))
      = Some [sample_record ''b.txt'' ''suitable'' 9,
              sample_record ''a.txt'' ''not_suitable'' 2,
              sample_record ''c.txt'' ''maybe_suitable'' 2]"
    by (simp add: upsert_def write_results_def initial_state_def cache_set_def
        saveAnalysisCache_def array_sort_def Object_values_def SortCompare_def
        score_compare_def sample_record_def sample_result_def Let_def)
  have "readResume (Some ''resume'') = Inr ''resume''"
    by (simp add: readResume_def trim_def is_space_def)
  then obtain s' where s': "run ?env no_files (Some ''resume'') ?dir = Inr s'"
    using run_returns by blast
  have todo: "jobsToAnalyze (loadAnalysisCache (results_file no_files)) (getJobPostingFiles ?dir) \<noteq> []"
    by (simp add: jobsToAnalyze_def loadAnalysisCache_def getJobPostingFiles_def endsWith_def
        cache_get_def no_files_def)
  have start: "\<forall>r\<in>set (case results_file no_files of None \<Rightarrow> [] | Some records \<Rightarrow> records).
                 has_score r"
    by (simp add: no_files_def)
  have svc: "\<forall>i t r. generateContent ?env i t = Payload r \<longrightarrow> match_score r \<noteq> None"
    by (auto simp: sample_env_def scripted_def sample_result_def nth_Cons' split: if_splits)
  have ran: "map_sum id (results_file \<circ> files) (run ?env no_files (Some ''resume'') ?dir)
     = Inr (Some [sample_record ''2.txt'' ''suitable'' 9,
                  sample_record ''1.txt'' ''not_suitable'' 2])"
    by (simp add: run_def readResume_def trim_def is_space_def loadAnalysisCache_def no_files_def
        getJobPostingFiles_def jobsToAnalyze_def endsWith_def cache_get_def initial_state_def
        analyze_item_def analyzeJobSuitability_def sample_env_def scripted_def sample_result_def
        sample_record_def SortCompare_def score_compare_def
        write_results_def cache_set_def saveAnalysisCache_def array_sort_def Object_values_def
        Let_def)
  note both = ledger_snapshot_sorted [of "initial_state [] no_files" ?ups ?env no_files
      "Some ''resume''" ?dir s']
  from both h1 h2 h3 val
  have a: "sorted_wrt score_ge
         [sample_record ''b.txt'' ''suitable'' 9,
          sample_record ''a.txt'' ''not_suitable'' 2,
          sample_record ''c.txt'' ''maybe_suitable'' 2]"
    by auto
  from both s' todo start svc
  obtain snapshot where "results_file (files s') = Some snapshot" "sorted_wrt score_ge snapshot"
    by blast
  with ran s' have b: "sorted_wrt score_ge
         [sample_record ''2.txt'' ''suitable'' 9, sample_record ''1.txt'' ''not_suitable'' 2]"
    by simp
  from val a ran b show ?thesis by (simp only: simp_thms)
qed

end
